theory Spec2Isabelle
  imports Complex_Main
begin

section \<open>Quantum Walk: the hash-chain step generator, its cache and the sequence matcher\<close>

text \<open>
  The program is TypeScript. Its numbers are IEEE doubles; here

  \<^item> timestamps, intervals, indices and \<open>maxInterval\<close> are \<open>int\<close>: along the chain they are
    integers below \<open>2^53\<close>, where double arithmetic is exact (a timestamp beyond
    \<open>8.64e15 < 2^53\<close> makes \<open>toISOString\<close> throw, which the model keeps as \<open>RangeError\<close>);
    \<open>BigInt\<close> values are \<open>int\<close>;
  \<^item> the numbers of the matcher (intervals, scores, window size, offsets) are \<open>number\<close>:
    binary64 values with the two zeros, the two infinities and \<open>NaN\<close>; every arithmetic
    operation rounds its exact result to the nearest double, ties to even, so that
    rounding, overflow, a division by zero and arithmetic on \<open>undefined\<close> are in the model
    what they are in the program.

  Every \<open>throw\<close> is a value \<open>Inl e\<close> of a sum type. The SHA-256 primitive is a parameter
  \<open>H\<close> of the generator (\<open>hashTimestamp\<close>), which may fail. A loop of the source is a
  function named after its function, with \<open>_loop\<close>, on the variables of the loop. A name of
  the source that is taken here (by a field of a record, or by a constant of HOL) has a
  prime or a suffix: \<open>maxInterval'\<close>, \<open>off\<close> for \<open>offset\<close>, \<open>set_cache\<close>.
\<close>

subsection \<open>Errors\<close>

datatype error =
    HashUnavailable
  | HashFailure
  | SyntaxError
  | RangeError
  | NoIntervalsToMatch
  | SearchRangeTooSmall
  | MaximumStepLimitExceeded

subsection \<open>durationConverter.ts\<close>

text \<open>\<open>MAX_INTERVAL_MS = 7 * 24 * 60 * 60 * 1000\<close>.\<close>

definition MAX_INTERVAL_MS :: int where
  "MAX_INTERVAL_MS = 7 * 24 * 60 * 60 * 1000"

text \<open>One hexadecimal digit, either case, as \<open>BigInt('0x...')\<close> reads it.\<close>

definition hexDigit :: "char \<Rightarrow> int option" where
  "hexDigit c = (let n = (of_char c :: int) in
     if 48 \<le> n \<and> n \<le> 57 then Some (n - 48)
     else if 97 \<le> n \<and> n \<le> 102 then Some (n - 87)
     else if 65 \<le> n \<and> n \<le> 70 then Some (n - 55)
     else None)"

fun parseHex :: "int \<Rightarrow> string \<Rightarrow> int option" where
  "parseHex acc [] = Some acc"
| "parseHex acc (c # cs) =
     (case hexDigit c of None \<Rightarrow> None | Some d \<Rightarrow> parseHex (16 * acc + d) cs)"

text \<open>
  The white space \<open>BigInt(string)\<close> trims (tab, line feed, vertical tab, form feed,
  carriage return, space, no-break space). The string starts with \<open>0x\<close>, so only white
  space at its end can be trimmed.
\<close>

definition isWhiteSpace :: "char \<Rightarrow> bool" where
  "isWhiteSpace c = ((of_char c :: int) \<in> {9, 10, 11, 12, 13, 32, 160})"

text \<open>\<open>BigInt('0x' + s)\<close>: \<open>None\<close> is the \<open>SyntaxError\<close> it throws (no digit, or a
  character that is not a hexadecimal digit).\<close>

definition bigIntOfHex :: "string \<Rightarrow> int option" where
  "bigIntOfHex s =
     (let t = rev (dropWhile isWhiteSpace (rev s))
      in if t = [] then None else parseHex 0 t)"

text \<open>BigInt division truncates toward zero.\<close>

definition bigIntDiv :: "int \<Rightarrow> int \<Rightarrow> int" where
  "bigIntDiv a b = sgn a * sgn b * (\<bar>a\<bar> div \<bar>b\<bar>)"

text \<open>The number of bits of a magnitude.\<close>

function bitLength :: "int \<Rightarrow> nat" where
  "bitLength n = (if n \<le> 0 then 0 else Suc (bitLength (n div 2)))"
  by pat_completeness auto
termination
  by (relation "measure nat") auto

declare bitLength.simps [simp del]

text \<open>
  \<open>Number(b)\<close> for a BigInt \<open>b\<close>: the double nearest to \<open>b\<close>, ties to the even
  significand. A magnitude of at most 53 bits is kept as it is; a longer one is rounded
  to 53 significant bits. (The result is the integer that double holds; the overflow to
  \<open>Infinity\<close> at \<open>2^1024\<close> is out of reach of a quotient bounded by a double.)
\<close>

definition numberOfBigInt :: "int \<Rightarrow> int" where
  "numberOfBigInt b =
     (let a = \<bar>b\<bar>; k = bitLength a
      in if k \<le> 53 then b
         else let e = k - 53; q = a div 2 ^ e; r = a mod 2 ^ e; half = 2 ^ (e - 1);
                  q' = (if half < r \<or> (r = half \<and> odd q) then q + 1 else q)
              in sgn b * (q' * 2 ^ e))"

definition maxUint64 :: int where
  "maxUint64 = 18446744073709551615"

text \<open>
  \<open>hashToDuration(hash, maxInterval)\<close>: the first 16 characters of the digest, read as a
  BigInt, times \<open>maxInterval\<close>, divided by \<open>0xFFFFFFFFFFFFFFFF\<close>, converted to a number.
  \<open>Math.floor\<close> of that integer is the integer itself.
\<close>

definition hashToDuration :: "string \<Rightarrow> int \<Rightarrow> error + int" where
  "hashToDuration hash maxInterval =
     (let hexSubstring = take 16 hash
      in case bigIntOfHex hexSubstring of
           None \<Rightarrow> Inl SyntaxError
         | Some hashValue \<Rightarrow>
             Inr (numberOfBigInt (bigIntDiv (hashValue * maxInterval) maxUint64)))"

text \<open>
  The unsigned integer a string of hexadecimal digits denotes, most significant digit
  first: the \<open>h\<close> of the scaling formula \<open>floor(h * maxInterval / (2^64 - 1))\<close>.
\<close>

definition digitValue :: "char \<Rightarrow> int" where
  "digitValue c = (case hexDigit c of None \<Rightarrow> 0 | Some d \<Rightarrow> d)"

definition hexValue :: "string \<Rightarrow> int" where
  "hexValue s = foldl (\<lambda>acc c. 16 * acc + digitValue c) 0 s"

subsection \<open>Date.prototype.toISOString\<close>

text \<open>Days since 1970-01-01 to (year, month, day) of the proleptic Gregorian calendar.\<close>

definition civilFromDays :: "int \<Rightarrow> int \<times> int \<times> int" where
  "civilFromDays days =
     (let z = days + 719468;
          era = z div 146097;
          doe = z - era * 146097;
          yoe = (doe - doe div 1460 + doe div 36524 - doe div 146096) div 365;
          doy = doe - (365 * yoe + yoe div 4 - yoe div 100);
          mp = (5 * doy + 2) div 153;
          d = doy - (153 * mp + 2) div 5 + 1;
          m = (if mp < 10 then mp + 3 else mp - 9)
      in (yoe + era * 400 + (if m \<le> 2 then 1 else 0), m, d))"

text \<open>A non-negative integer in decimal, padded with zeros to \<open>w\<close> digits.\<close>

primrec padNat :: "nat \<Rightarrow> int \<Rightarrow> string" where
  "padNat 0 n = []"
| "padNat (Suc w) n = padNat w (n div 10) @ [''0123456789'' ! nat (n mod 10)]"

definition isoYear :: "int \<Rightarrow> string" where
  "isoYear y =
     (if 0 \<le> y \<and> y \<le> 9999 then padNat 4 y
      else (if y < 0 then ''-'' else ''+'') @ padNat 6 \<bar>y\<bar>)"

text \<open>\<open>new Date(t).toISOString()\<close>: a \<open>RangeError\<close> outside the time range of a Date.\<close>

definition toISOString :: "int \<Rightarrow> error + string" where
  "toISOString t =
     (if 8640000000000000 < \<bar>t\<bar> then Inl RangeError
      else let (y, m, d) = civilFromDays (t div 86400000);
               ms = t mod 86400000
           in Inr (isoYear y @ ''-'' @ padNat 2 m @ ''-'' @ padNat 2 d @ ''T''
                   @ padNat 2 (ms div 3600000) @ '':'' @ padNat 2 (ms div 60000 mod 60) @ '':''
                   @ padNat 2 (ms div 1000 mod 60) @ ''.'' @ padNat 3 (ms mod 1000) @ ''Z''))"

subsection \<open>types/quantum.ts\<close>

text \<open>The optional \<open>localString\<close> of a step is never set by the code modelled here.\<close>

record QuantumStep =
  index :: int
  timestamp :: int
  interval :: int
  hash :: string
  isoString :: string

record QuantumConfig =
  maxInterval :: int
  startTimestamp :: int

text \<open>\<open>timestamp\<close>, the second field of a cache entry in the source, is \<open>cachedAt\<close> here.\<close>

record StepCacheEntry =
  step :: QuantumStep
  cachedAt :: int

subsection \<open>stepCalculator.ts\<close>

text \<open>
  \<open>hashTimestamp\<close> (hasher.ts) digests the decimal text of a timestamp with the host's
  SHA-256, or throws. It is the parameter \<open>H\<close> of every function below.
\<close>

type_synonym hasher = "int \<Rightarrow> error + string"

definition DEFAULT_CONFIG :: QuantumConfig where
  "DEFAULT_CONFIG = \<lparr>maxInterval = MAX_INTERVAL_MS, startTimestamp = 0\<rparr>"

definition getInitialStep :: "hasher \<Rightarrow> error + QuantumStep" where
  "getInitialStep H =
     (case H 0 of
        Inl e \<Rightarrow> Inl e
      | Inr h \<Rightarrow>
          (case toISOString 0 of
             Inl e \<Rightarrow> Inl e
           | Inr isoStr \<Rightarrow>
               Inr \<lparr>index = 0, timestamp = 0, interval = 0, hash = h, isoString = isoStr\<rparr>))"

definition calculateNextStep :: "hasher \<Rightarrow> QuantumStep \<Rightarrow> QuantumConfig \<Rightarrow> error + QuantumStep" where
  "calculateNextStep H currentStep config =
     (case H (timestamp currentStep) of
        Inl e \<Rightarrow> Inl e
      | Inr h \<Rightarrow>
          (case hashToDuration h (maxInterval config) of
             Inl e \<Rightarrow> Inl e
           | Inr iv \<Rightarrow>
               (let nextTimestamp = timestamp currentStep + iv
                in case toISOString nextTimestamp of
                     Inl e \<Rightarrow> Inl e
                   | Inr isoStr \<Rightarrow>
                       Inr \<lparr>index = index currentStep + 1, timestamp = nextTimestamp,
                            interval = iv, hash = h, isoString = isoStr\<rparr>)))"

text \<open>\<open>calculateStepsForward\<close>: the \<open>for\<close> loop, \<open>count\<close> times; the first failure ends it.\<close>

primrec calculateStepsForward ::
  "hasher \<Rightarrow> QuantumStep \<Rightarrow> nat \<Rightarrow> QuantumConfig \<Rightarrow> error + QuantumStep list" where
  "calculateStepsForward H startStep 0 config = Inr []"
| "calculateStepsForward H startStep (Suc n) config =
     (case calculateNextStep H startStep config of
        Inl e \<Rightarrow> Inl e
      | Inr current \<Rightarrow>
          (case calculateStepsForward H current n config of
             Inl e \<Rightarrow> Inl e
           | Inr steps \<Rightarrow> Inr (current # steps)))"




text \<open>
  The loop of \<open>findStepNearTimestamp\<close>. Nothing bounds it: a chain whose timestamps stop
  growing below the target keeps it running, which is the value \<open>None\<close>.
\<close>

partial_function (option) findStepNearTimestamp_loop ::
  "hasher \<Rightarrow> QuantumConfig \<Rightarrow> int \<Rightarrow> QuantumStep \<Rightarrow> (error + QuantumStep) option" where
  "findStepNearTimestamp_loop H config targetTimestamp current =
     (if timestamp current < targetTimestamp then
        (case calculateNextStep H current config of
           Inl e \<Rightarrow> Some (Inl e)
         | Inr next \<Rightarrow>
             if targetTimestamp < timestamp next then
               (let currentDiff = \<bar>targetTimestamp - timestamp current\<bar>;
                    nextDiff = \<bar>targetTimestamp - timestamp next\<bar>
                in Some (Inr (if currentDiff < nextDiff then current else next)))
             else findStepNearTimestamp_loop H config targetTimestamp next)
      else Some (Inr current))"

definition findStepNearTimestamp ::
  "hasher \<Rightarrow> int \<Rightarrow> QuantumConfig \<Rightarrow> (error + QuantumStep) option" where
  "findStepNearTimestamp H targetTimestamp config =
     (case getInitialStep H of
        Inl e \<Rightarrow> Some (Inl e)
      | Inr current \<Rightarrow> findStepNearTimestamp_loop H config targetTimestamp current)"

text \<open>The loop of \<open>calculateStepsInRange\<close>; a step past the end is computed and not kept.\<close>

partial_function (option) calculateStepsInRange_loop ::
  "hasher \<Rightarrow> QuantumConfig \<Rightarrow> int \<Rightarrow> QuantumStep \<Rightarrow> QuantumStep list
     \<Rightarrow> (error + QuantumStep list) option" where
  "calculateStepsInRange_loop H config endTimestamp current steps =
     (if timestamp current < endTimestamp then
        (case calculateNextStep H current config of
           Inl e \<Rightarrow> Some (Inl e)
         | Inr next \<Rightarrow>
             calculateStepsInRange_loop H config endTimestamp next
               (if timestamp next \<le> endTimestamp then steps @ [next] else steps))
      else Some (Inr steps))"

text \<open>The two dates are given by their time values (\<open>getTime()\<close>).\<close>

definition calculateStepsInRange ::
  "hasher \<Rightarrow> int \<Rightarrow> int \<Rightarrow> QuantumConfig \<Rightarrow> (error + QuantumStep list) option" where
  "calculateStepsInRange H startTimestamp' endTimestamp config =
     (case findStepNearTimestamp H startTimestamp' config of
        None \<Rightarrow> None
      | Some (Inl e) \<Rightarrow> Some (Inl e)
      | Some (Inr firstStep) \<Rightarrow>
          calculateStepsInRange_loop H config endTimestamp firstStep [firstStep])"

subsection \<open>cache.ts\<close>

text \<open>
  A JavaScript \<open>Map\<close> keeps its keys in insertion order: an association list, where
  setting a key that is there replaces its value in place and a new key goes last.
\<close>

fun mapSet :: "'k \<Rightarrow> 'v \<Rightarrow> ('k \<times> 'v) list \<Rightarrow> ('k \<times> 'v) list" where
  "mapSet k v [] = [(k, v)]"
| "mapSet k v (p # ps) = (if fst p = k then (k, v) # ps else p # mapSet k v ps)"

definition mapGet :: "('k \<times> 'v) list \<Rightarrow> 'k \<Rightarrow> 'v option" where
  "mapGet m k = map_of m k"

definition mapDelete :: "'k \<Rightarrow> ('k \<times> 'v) list \<Rightarrow> ('k \<times> 'v) list" where
  "mapDelete k m = filter (\<lambda>p. fst p \<noteq> k) m"

record StepCache =
  cache :: "(int \<times> StepCacheEntry) list"
  maxSize :: int
  checkpoints :: "(int \<times> QuantumStep) list"

text \<open>The constructor; its second parameter, \<open>checkpointInterval\<close>, is not used by it.\<close>

definition newStepCache :: "int \<Rightarrow> int \<Rightarrow> StepCache" where
  "newStepCache maxSize' checkpointInterval = \<lparr>cache = [], maxSize = maxSize', checkpoints = []\<rparr>"

definition get_cache :: "StepCache \<Rightarrow> int \<Rightarrow> QuantumStep option" where
  "get_cache c i = (case mapGet (cache c) i of None \<Rightarrow> None | Some entry \<Rightarrow> Some (step entry))"

text \<open>\<open>set(step)\<close>; \<open>now\<close> is what \<open>Date.now()\<close> returns during the call.\<close>

definition set_cache :: "StepCache \<Rightarrow> QuantumStep \<Rightarrow> int \<Rightarrow> StepCache" where
  "set_cache c s now =
     (let evicted =
            (if maxSize c \<le> int (length (cache c)) then
               (case cache c of [] \<Rightarrow> [] | (firstKey, _) # _ \<Rightarrow> mapDelete firstKey (cache c))
             else cache c);
          stored = mapSet (index s) \<lparr>step = s, cachedAt = now\<rparr> evicted
      in c\<lparr>cache := stored,
            checkpoints :=
              (if index s mod 1000 = 0 then mapSet (index s) s (checkpoints c)
               else checkpoints c)\<rparr>)"

definition getNearestCheckpoint :: "StepCache \<Rightarrow> int \<Rightarrow> QuantumStep option" where
  "getNearestCheckpoint c targetIndex =
     (let checkpointIndex = (targetIndex div 1000) * 1000
      in mapGet (checkpoints c) checkpointIndex)"

definition clear_cache :: "StepCache \<Rightarrow> StepCache" where
  "clear_cache c = c\<lparr>cache := [], checkpoints := []\<rparr>"

text \<open>A use of the cache: a sequence of \<open>set\<close> and \<open>clear\<close> calls on a new cache.\<close>

datatype cacheOp = CacheSet QuantumStep int | CacheClear

fun applyOp :: "StepCache \<Rightarrow> cacheOp \<Rightarrow> StepCache" where
  "applyOp c (CacheSet s now) = set_cache c s now"
| "applyOp c CacheClear = clear_cache c"

definition runOps :: "cacheOp list \<Rightarrow> StepCache" where
  "runOps ops = foldl applyOp (newStepCache 10000 1000) ops"

subsection \<open>JavaScript numbers of the matcher\<close>

text \<open>
  A number of the matcher is a binary64 value: \<open>Fin a\<close> is the finite value \<open>a\<close> (\<open>Fin 0\<close>
  is the positive zero), \<open>NegZero\<close> the negative zero; there are the two infinities and
  \<open>NaN\<close>. The doubles are the \<open>Fin a\<close> that \<open>roundDouble\<close> leaves as they are.
\<close>

datatype number = Fin real | NegZero | PosInf | NegInf | NaN

text \<open>The integer nearest to \<open>q\<close>, the even one of the two when \<open>q\<close> lies halfway.\<close>

definition roundHalfEven :: "real \<Rightarrow> int" where
  "roundHalfEven q =
     (let f = \<lfloor>q\<rfloor>; d = q - of_int f
      in if d < 1 / 2 then f else if 1 / 2 < d then f + 1 else if even f then f else f + 1)"

text \<open>
  A non-zero real \<open>x\<close> rounded to the doubles of exponent \<open>e\<close>, which are the multiples of
  \<open>2^(e - 52)\<close>: to the nearest, ties to the even significand; \<open>2^1024\<close> is out of range
  and becomes an infinity, and what rounds to nothing becomes a zero of the sign of \<open>x\<close>.
\<close>

definition roundAt :: "int \<Rightarrow> real \<Rightarrow> number" where
  "roundAt e x =
     (let ulp = 2 powi (e - 52);
          m = roundHalfEven (\<bar>x\<bar> / ulp);
          y = of_int m * ulp
      in if 2 ^ 1024 \<le> y then (if 0 < x then PosInf else NegInf)
         else if m = 0 then (if 0 < x then Fin 0 else NegZero)
         else Fin (if 0 < x then y else - y))"

text \<open>
  The double that an exact result \<open>x\<close> becomes (round to nearest, ties to even): the
  exponent is that of \<open>x\<close>, and \<open>-1022\<close> for the subnormal numbers.
\<close>

definition roundDouble :: "real \<Rightarrow> number" where
  "roundDouble x = (if x = 0 then Fin 0 else roundAt (max \<lfloor>log 2 \<bar>x\<bar>\<rfloor> (- 1022)) x)"

definition isZero :: "number \<Rightarrow> bool" where
  "isZero x = (x = Fin 0 \<or> x = NegZero)"

definition isInf :: "number \<Rightarrow> bool" where
  "isInf x = (x = PosInf \<or> x = NegInf)"


fun signBit :: "number \<Rightarrow> bool" where
  "signBit (Fin a) = (a < 0)"
| "signBit NegZero = True"
| "signBit PosInf = False"
| "signBit NegInf = True"
| "signBit NaN = False"

fun valueOf :: "number \<Rightarrow> real" where
  "valueOf (Fin a) = a"
| "valueOf NegZero = 0"
| "valueOf PosInf = 0"
| "valueOf NegInf = 0"
| "valueOf NaN = 0"

definition zeroOf :: "bool \<Rightarrow> number" where
  "zeroOf negative = (if negative then NegZero else Fin 0)"

definition infOf :: "bool \<Rightarrow> number" where
  "infOf negative = (if negative then NegInf else PosInf)"

fun nNeg :: "number \<Rightarrow> number" where
  "nNeg (Fin a) = (if a = 0 then NegZero else Fin (- a))"
| "nNeg NegZero = Fin 0"
| "nNeg PosInf = NegInf"
| "nNeg NegInf = PosInf"
| "nNeg NaN = NaN"

text \<open>
  \<open>x + y\<close>. The sum of two zeros is negative only when both are; a zero added to a number
  leaves it as it is; an exact sum of zero is the positive zero.
\<close>

definition nAdd :: "number \<Rightarrow> number \<Rightarrow> number" where
  "nAdd x y =
     (if x = NaN \<or> y = NaN then NaN
      else if isInf x \<and> isInf y then (if x = y then x else NaN)
      else if isInf x then x
      else if isInf y then y
      else if isZero x \<and> isZero y then (if x = NegZero \<and> y = NegZero then NegZero else Fin 0)
      else if isZero x then y
      else if isZero y then x
      else if valueOf x + valueOf y = 0 then Fin 0
      else roundDouble (valueOf x + valueOf y))"

definition nSub :: "number \<Rightarrow> number \<Rightarrow> number" where
  "nSub x y = nAdd x (nNeg y)"

text \<open>\<open>x * y\<close> and \<open>x / y\<close>: the sign of the result is the exclusive or of the two signs.\<close>

definition nMul :: "number \<Rightarrow> number \<Rightarrow> number" where
  "nMul x y =
     (if x = NaN \<or> y = NaN then NaN
      else if (isInf x \<and> isZero y) \<or> (isZero x \<and> isInf y) then NaN
      else if isInf x \<or> isInf y then infOf (signBit x \<noteq> signBit y)
      else if isZero x \<or> isZero y then zeroOf (signBit x \<noteq> signBit y)
      else roundDouble (valueOf x * valueOf y))"

definition nDiv :: "number \<Rightarrow> number \<Rightarrow> number" where
  "nDiv x y =
     (if x = NaN \<or> y = NaN then NaN
      else if (isInf x \<and> isInf y) \<or> (isZero x \<and> isZero y) then NaN
      else if isInf x \<or> isZero y then infOf (signBit x \<noteq> signBit y)
      else if isInf y \<or> isZero x then zeroOf (signBit x \<noteq> signBit y)
      else roundDouble (valueOf x / valueOf y))"

fun nAbs :: "number \<Rightarrow> number" where
  "nAbs (Fin a) = Fin \<bar>a\<bar>"
| "nAbs NegZero = Fin 0"
| "nAbs PosInf = PosInf"
| "nAbs NegInf = PosInf"
| "nAbs NaN = NaN"

text \<open>\<open>Math.sqrt\<close>, as the correctly rounded square root that the engines compute.\<close>

definition nSqrt :: "number \<Rightarrow> number" where
  "nSqrt x =
     (if x = NaN then NaN
      else if isZero x then x
      else if signBit x then NaN
      else if x = PosInf then PosInf
      else roundDouble (sqrt (valueOf x)))"

text \<open>\<open>x < y\<close>, \<open>x > y\<close> and \<open>x <= y\<close>: false when either is \<open>NaN\<close>; the two zeros are equal.\<close>

definition nLt :: "number \<Rightarrow> number \<Rightarrow> bool" where
  "nLt x y =
     (if x = NaN \<or> y = NaN then False
      else if x = PosInf \<or> y = NegInf then False
      else if x = NegInf \<or> y = PosInf then True
      else valueOf x < valueOf y)"

definition nGt :: "number \<Rightarrow> number \<Rightarrow> bool" where
  "nGt x y = nLt y x"

definition nLe :: "number \<Rightarrow> number \<Rightarrow> bool" where
  "nLe x y = (x \<noteq> NaN \<and> y \<noteq> NaN \<and> \<not> nLt y x)"

text \<open>
  \<open>Math.max\<close> and \<open>Math.min\<close> of two numbers: \<open>NaN\<close> if either is; the positive zero is the
  larger of the two zeros.
\<close>

definition nMax :: "number \<Rightarrow> number \<Rightarrow> number" where
  "nMax x y =
     (if x = NaN \<or> y = NaN then NaN
      else if nLt x y then y
      else if nLt y x then x
      else if x = NegZero then y else x)"

definition nMin :: "number \<Rightarrow> number \<Rightarrow> number" where
  "nMin x y =
     (if x = NaN \<or> y = NaN then NaN
      else if nLt x y then x
      else if nLt y x then y
      else if y = NegZero then y else x)"

text \<open>\<open>a[i]\<close> in arithmetic: \<open>undefined\<close>, past the end of the array, becomes \<open>NaN\<close>.\<close>

definition elemNumber :: "number list \<Rightarrow> nat \<Rightarrow> number" where
  "elemNumber a i = (if i < length a then a ! i else NaN)"

text \<open>
  An argument of \<open>slice\<close> as an index of an array of length \<open>len\<close>: truncated toward zero
  (\<open>NaN\<close> is 0), counted from the end when negative, and kept within \<open>0\<close> and \<open>len\<close>.
\<close>

definition relativeIndex :: "nat \<Rightarrow> number \<Rightarrow> nat" where
  "relativeIndex len x =
     (case x of
        Fin a \<Rightarrow>
          (let i = (if a < 0 then \<lceil>a\<rceil> else \<lfloor>a\<rfloor>)
           in if i < 0 then nat (int len + i) else min (nat i) len)
      | NegZero \<Rightarrow> 0
      | PosInf \<Rightarrow> len
      | NegInf \<Rightarrow> 0
      | NaN \<Rightarrow> 0)"

text \<open>\<open>xs.slice(start, end)\<close>.\<close>

definition sliceJS :: "'a list \<Rightarrow> number \<Rightarrow> number \<Rightarrow> 'a list" where
  "sliceJS xs start end' =
     (let k = relativeIndex (length xs) start;
          final = relativeIndex (length xs) end'
      in take (final - k) (drop k xs))"

subsection \<open>similarityScore.ts\<close>

text \<open>
  Interval sequences are lists of numbers. The length \<open>n\<close> of an array is the number
  \<open>Fin (real n)\<close>. The three accumulators of the loop of \<open>pearsonCorrelation\<close> are the state
  of a fold over the indices.
\<close>

definition pearsonCorrelation :: "number list \<Rightarrow> number list \<Rightarrow> number" where
  "pearsonCorrelation x y =
     (let n = min (length x) (length y)
      in if n = 0 then Fin 0
         else let meanX = nDiv (foldl nAdd (Fin 0) (take n x)) (Fin (real n));
                  meanY = nDiv (foldl nAdd (Fin 0) (take n y)) (Fin (real n));
                  (numerator, sumSqX, sumSqY) =
                    foldl (\<lambda>(numerator, sumSqX, sumSqY) i.
                             let dx = nSub (x ! i) meanX;
                                 dy = nSub (y ! i) meanY
                             in (nAdd numerator (nMul dx dy),
                                 nAdd sumSqX (nMul dx dx),
                                 nAdd sumSqY (nMul dy dy)))
                      (Fin 0, Fin 0, Fin 0) [0..<n];
                  denominator = nSqrt (nMul sumSqX sumSqY)
              in if isZero denominator then Fin 0 else nDiv numerator denominator)"

record MatchStatistics =
  meanError :: number
  stdDeviation :: number
  correlation :: number
  rmse :: number
  maxError :: number
  minError :: number

text \<open>
  \<open>Math.max(...errors)\<close> and \<open>Math.min(...errors)\<close> are folds from \<open>-Infinity\<close> and
  \<open>Infinity\<close>; \<open>Math.pow(d, 2)\<close> is the product \<open>d * d\<close>.
\<close>

definition calculateStatistics :: "number list \<Rightarrow> number list \<Rightarrow> MatchStatistics" where
  "calculateStatistics userIntervals quantumIntervals =
     (let n = min (length userIntervals) (length quantumIntervals);
          errors = map (\<lambda>i. nAbs (nSub (userIntervals ! i) (quantumIntervals ! i))) [0..<n];
          meanError' = nDiv (foldl nAdd (Fin 0) errors) (Fin (real n));
          variance =
            nDiv (foldl (\<lambda>sum e. nAdd sum (nMul (nSub e meanError') (nSub e meanError')))
                    (Fin 0) errors)
              (Fin (real n))
      in \<lparr>meanError = meanError',
          stdDeviation = nSqrt variance,
          correlation = pearsonCorrelation userIntervals quantumIntervals,
          rmse = nSqrt (nDiv (foldl (\<lambda>sum e. nAdd sum (nMul e e)) (Fin 0) errors) (Fin (real n))),
          maxError = foldl nMax NegInf errors,
          minError = foldl nMin PosInf errors\<rparr>)"

text \<open>One term of the ratio sum: \<open>Math.min(u, q) / Math.max(u, q)\<close>, or 1 when both are zero.\<close>

definition ratioTerm :: "number \<Rightarrow> number \<Rightarrow> number" where
  "ratioTerm u q = (if isZero u \<and> isZero q then Fin 1 else nDiv (nMin u q) (nMax u q))"

text \<open>
  \<open>userIntervals.reduce((sum, u, i) => sum + Math.abs(u - quantumIntervals[i]), 0)\<close>:
  over the whole of \<open>userIntervals\<close>, from index \<open>i\<close> on.
\<close>

fun absErrorSum :: "number \<Rightarrow> nat \<Rightarrow> number list \<Rightarrow> number list \<Rightarrow> number" where
  "absErrorSum acc i [] quantumIntervals = acc"
| "absErrorSum acc i (u # us) quantumIntervals =
     absErrorSum (nAdd acc (nAbs (nSub u (elemNumber quantumIntervals i)))) (Suc i) us
       quantumIntervals"

text \<open>
  The weights \<open>0.5\<close>, \<open>0.3\<close> and \<open>0.2\<close> are the doubles nearest to them; \<open>0.5\<close> is one
  itself.
\<close>

definition calculateSimilarity :: "number list \<Rightarrow> number list \<Rightarrow> number \<Rightarrow> number" where
  "calculateSimilarity userIntervals quantumIntervals maxInterval' =
     (let n = min (length userIntervals) (length quantumIntervals)
      in if n = 0 then Fin 0
         else let ratioSum =
                    foldl (\<lambda>acc i. nAdd acc (ratioTerm (userIntervals ! i) (quantumIntervals ! i)))
                      (Fin 0) [0..<n];
                  ratioScore = nDiv ratioSum (Fin (real n));
                  meanError' =
                    nDiv (absErrorSum (Fin 0) 0 userIntervals quantumIntervals) (Fin (real n));
                  errorScore = nMax (Fin 0) (nSub (Fin 1) (nDiv meanError' maxInterval'));
                  corrScore =
                    nDiv (nAdd (pearsonCorrelation userIntervals quantumIntervals) (Fin 1)) (Fin 2);
                  finalScore =
                    nAdd (nAdd (nMul (Fin (1 / 2)) ratioScore) (nMul (roundDouble (3 / 10)) errorScore))
                      (nMul (roundDouble (2 / 10)) corrScore)
              in nMax (Fin 0) (nMin (Fin 1) finalScore))"

text \<open>The default of the parameter \<open>maxInterval\<close> of \<open>calculateSimilarity\<close>.\<close>

definition defaultMaxInterval :: number where
  "defaultMaxInterval = Fin (7 * 24 * 60 * 60 * 1000)"

subsection \<open>types/matching.ts and sequenceMatcher.ts\<close>

text \<open>
  \<open>length\<close>, a field of an alignment in the source, is \<open>length_al\<close> here; the fields
  \<open>userIntervals\<close> and \<open>quantumIntervals\<close> of a match result are \<open>userIntervals_mr\<close> and
  \<open>quantumIntervals_mr\<close>. The offset and the length of an alignment are numbers, as the
  loop counter and the window size are.
\<close>

record SequenceAlignment =
  offset :: number
  length_al :: number
  alignedSteps :: "QuantumStep list"

record MatchResult =
  similarityScore :: number
  alignment :: SequenceAlignment
  matchedSteps :: "QuantumStep list"
  statistics :: MatchStatistics
  userIntervals_mr :: "number list"
  quantumIntervals_mr :: "number list"

datatype inputType = Intervals | Timestamps

text \<open>
  The fields \<open>type\<close> and \<open>values\<close> of the source are \<open>inputType_of\<close> and \<open>inputValues\<close>; the
  optional \<open>searchRange\<close> holds the time values of its two dates, start first.
\<close>

record UserSequenceInput =
  inputType_of :: inputType
  inputValues :: "number list"
  searchRange :: "(int \<times> int) option"

definition parseUserInput :: "UserSequenceInput \<Rightarrow> number list" where
  "parseUserInput input =
     (case inputType_of input of
        Intervals \<Rightarrow> inputValues input
      | Timestamps \<Rightarrow>
          map (\<lambda>i. nSub (inputValues input ! i) (inputValues input ! (i - 1)))
            [1..<length (inputValues input)])"

text \<open>The interval of a step of the chain is an integer below \<open>2^53\<close>, hence a double.\<close>

definition extractIntervals :: "QuantumStep list \<Rightarrow> number list" where
  "extractIntervals steps = map (\<lambda>s. Fin (real_of_int (interval s))) steps"

text \<open>
  \<open>windowSize || userIntervals.length\<close>: the window size is any number or absent
  (\<open>None\<close>); absent, zero and \<open>NaN\<close> give the length of the user's sequence.
\<close>

definition targetLengthOf :: "number list \<Rightarrow> number option \<Rightarrow> number" where
  "targetLengthOf userIntervals windowSize =
     (case windowSize of
        None \<Rightarrow> Fin (real (length userIntervals))
      | Some w \<Rightarrow> if w = NaN \<or> isZero w then Fin (real (length userIntervals)) else w)"

text \<open>
  The sliding-window loop of \<open>findBestAlignment\<close>, on \<open>offset\<close>, \<open>bestScore\<close> and
  \<open>bestOffset\<close>. The counter is a number: \<open>offset++\<close> adds 1 in double arithmetic, and the
  loop does not end when the bound is out of its reach (\<open>None\<close>).
\<close>

partial_function (option) findBestAlignment_loop ::
  "number list \<Rightarrow> number list \<Rightarrow> number \<Rightarrow> number \<Rightarrow> number \<Rightarrow> number
   \<Rightarrow> (number \<times> number) option" where
  "findBestAlignment_loop userIntervals quantumIntervals targetLength off bestScore bestOffset =
     (if nLe off (nSub (Fin (real (length quantumIntervals))) targetLength) then
        (let window = sliceJS quantumIntervals off (nAdd off targetLength);
             score = calculateSimilarity userIntervals window defaultMaxInterval
         in if nGt score bestScore then
              findBestAlignment_loop userIntervals quantumIntervals targetLength
                (nAdd off (Fin 1)) score off
            else
              findBestAlignment_loop userIntervals quantumIntervals targetLength
                (nAdd off (Fin 1)) bestScore bestOffset)
      else Some (bestScore, bestOffset))"

definition findBestAlignment ::
  "number list \<Rightarrow> QuantumStep list \<Rightarrow> number option \<Rightarrow> SequenceAlignment option" where
  "findBestAlignment userIntervals quantumSteps windowSize =
     (let targetLength = targetLengthOf userIntervals windowSize;
          quantumIntervals = extractIntervals quantumSteps
      in case findBestAlignment_loop userIntervals quantumIntervals targetLength (Fin 0)
                (Fin (- 1)) (Fin 0) of
           None \<Rightarrow> None
         | Some (bestScore, bestOffset) \<Rightarrow>
             Some \<lparr>offset = bestOffset, length_al = targetLength,
                   alignedSteps =
                     sliceJS quantumSteps bestOffset (nAdd bestOffset targetLength)\<rparr>)"

text \<open>
  The score the loop gives the window at the offset \<open>j\<close>: that of the user's sequence
  against \<open>quantumIntervals.slice(j, j + targetLength)\<close>.
\<close>

definition windowScore :: "number list \<Rightarrow> number list \<Rightarrow> number \<Rightarrow> nat \<Rightarrow> number" where
  "windowScore userIntervals quantumIntervals targetLength j =
     calculateSimilarity userIntervals
       (sliceJS quantumIntervals (Fin (real j)) (nAdd (Fin (real j)) targetLength))
       defaultMaxInterval"

text \<open>The quantum steps \<open>matchSequence\<close> searches: those of the range when the input has
  one, the first 10000 steps after the initial one otherwise.\<close>

definition quantumStepsToSearch ::
  "hasher \<Rightarrow> UserSequenceInput \<Rightarrow> (error + QuantumStep list) option" where
  "quantumStepsToSearch H input =
     (case searchRange input of
        Some (rangeStart, rangeEnd) \<Rightarrow> calculateStepsInRange H rangeStart rangeEnd DEFAULT_CONFIG
      | None \<Rightarrow>
          (case getInitialStep H of
             Inl e \<Rightarrow> Some (Inl e)
           | Inr initialStep \<Rightarrow> Some (calculateStepsForward H initialStep 10000 DEFAULT_CONFIG)))"

definition matchSequence :: "hasher \<Rightarrow> UserSequenceInput \<Rightarrow> (error + MatchResult) option" where
  "matchSequence H input =
     (let userIntervals = parseUserInput input
      in if length userIntervals = 0 then Some (Inl NoIntervalsToMatch)
         else (case quantumStepsToSearch H input of
                 None \<Rightarrow> None
               | Some (Inl e) \<Rightarrow> Some (Inl e)
               | Some (Inr quantumSteps) \<Rightarrow>
                   if length quantumSteps < length userIntervals then Some (Inl SearchRangeTooSmall)
                   else (case findBestAlignment userIntervals quantumSteps None of
                           None \<Rightarrow> None
                         | Some alignment' \<Rightarrow>
                             (let quantumIntervals = extractIntervals (alignedSteps alignment')
                              in Some (Inr
                                   \<lparr>similarityScore =
                                      calculateSimilarity userIntervals quantumIntervals
                                        defaultMaxInterval,
                                    alignment = alignment',
                                    matchedSteps = alignedSteps alignment',
                                    statistics = calculateStatistics userIntervals quantumIntervals,
                                    userIntervals_mr = userIntervals,
                                    quantumIntervals_mr = quantumIntervals\<rparr>)))))"

text \<open>The two errors \<open>matchSequence\<close> throws by itself, on its input.\<close>

definition isValidationError :: "error \<Rightarrow> bool" where
  "isValidationError e = (e = NoIntervalsToMatch \<or> e = SearchRangeTooSmall)"

text \<open>
  Hashing succeeds: every timestamp gets a digest, whose first 16 characters (at least)
  are hexadecimal digits, as those of a SHA-256 digest in hexadecimal are.
\<close>

definition hashingSucceeds :: "hasher \<Rightarrow> bool" where
  "hashingSucceeds H =
     (\<forall>t. \<exists>d. H t = Inr d \<and> 16 \<le> length d \<and> (\<forall>c\<in>set (take 16 d). hexDigit c \<noteq> None))"

subsection \<open>Hash functions for concrete runs\<close>

text \<open>
  What SHA-256 gives for the decimal text of the first three timestamps of the chain
  (\<open>0\<close>, \<open>226623915\<close>, \<open>598680661\<close>), as a host that is unavailable everywhere else.
\<close>

definition sha256_known :: hasher where
  "sha256_known t =
     (if t = 0 then Inr ''5feceb66ffc86f38d952786c6d696c79c2dbc239dd4e91b46729d73a27fb57e9''
      else if t = 226623915 then
        Inr ''9d7bfd82cb1d7194737fe8fd5700dd9bf5c8303e53ef0eb95b4e87268e96187b''
      else if t = 598680661 then
        Inr ''796d385788d998563b16c2de9abcf69c61014ab45e0a2af0b4359567a54b25bb''
      else Inl HashUnavailable)"

text \<open>A hash that gives every timestamp the same digest.\<close>

definition constHash :: "string \<Rightarrow> hasher" where
  "constHash d = (\<lambda>t. Inr d)"

text \<open>The origin and the two steps after it, under \<open>sha256_known\<close> and the default
  configuration.\<close>

definition originStep :: QuantumStep where
  "originStep =
     \<lparr>index = 0, timestamp = 0, interval = 0,
      hash = ''5feceb66ffc86f38d952786c6d696c79c2dbc239dd4e91b46729d73a27fb57e9'',
      isoString = ''1970-01-01T00:00:00.000Z''\<rparr>"

definition knownStep1 :: QuantumStep where
  "knownStep1 =
     \<lparr>index = 1, timestamp = 226623915, interval = 226623915,
      hash = ''5feceb66ffc86f38d952786c6d696c79c2dbc239dd4e91b46729d73a27fb57e9'',
      isoString = ''1970-01-03T14:57:03.915Z''\<rparr>"

definition knownStep2 :: QuantumStep where
  "knownStep2 =
     \<lparr>index = 2, timestamp = 598680661, interval = 372056746,
      hash = ''9d7bfd82cb1d7194737fe8fd5700dd9bf5c8303e53ef0eb95b4e87268e96187b'',
      isoString = ''1970-01-07T22:18:00.661Z''\<rparr>"

text \<open>A hash that gives every timestamp the digest SHA-256 gives the text \<open>0\<close>, and one
  that gives every timestamp a digest of zeros (every interval is then 0).\<close>

definition digestOfZero :: string where
  "digestOfZero = ''5feceb66ffc86f38d952786c6d696c79c2dbc239dd4e91b46729d73a27fb57e9''"

definition zeroDigest :: string where
  "zeroDigest = ''0000000000000000000000000000000000000000000000000000000000000000''"

text \<open>Seven candidate steps with the intervals 1, 5, 7, 1, 5, 7 and 1.\<close>

definition tieCandidates :: "QuantumStep list" where
  "tieCandidates = map (\<lambda>i. originStep\<lparr>interval := i\<rparr>) [1, 5, 7, 1, 5, 7, 1]"

section \<open>Properties\<close>

subsection \<open>Concrete runs\<close>

lemma getInitialStep_known: "getInitialStep sha256_known = Inr originStep"
  by code_simp

lemma calculateNextStep_origin:
  "calculateNextStep sha256_known originStep DEFAULT_CONFIG = Inr knownStep1"
  by code_simp

lemma calculateNextStep_known1:
  "calculateNextStep sha256_known knownStep1 DEFAULT_CONFIG = Inr knownStep2"
  by code_simp

lemma known_timestamps:
  "timestamp originStep = 0" "timestamp knownStep1 = 226623915"
  "timestamp knownStep2 = 598680661"
  by (simp_all add: originStep_def knownStep1_def knownStep2_def)

lemma calculateStepsForward_known2:
  "calculateStepsForward sha256_known originStep (Suc (Suc 0)) DEFAULT_CONFIG
     = Inr [knownStep1, knownStep2]"
  by (simp add: calculateNextStep_origin calculateNextStep_known1)

lemma toISOString_zero: "toISOString 0 = Inr ''1970-01-01T00:00:00.000Z''"
  by code_simp

lemma getInitialStep_const: "getInitialStep (constHash digestOfZero) = Inr originStep"
  by code_simp

lemma calculateNextStep_const_origin:
  "calculateNextStep (constHash digestOfZero) originStep DEFAULT_CONFIG = Inr knownStep1"
  by code_simp

lemma hashToDuration_zeroDigest: "hashToDuration zeroDigest M = Inr 0"
  by (simp add: hashToDuration_def zeroDigest_def bigIntOfHex_def isWhiteSpace_def hexDigit_def
      bigIntDiv_def numberOfBigInt_def Let_def)

subsection \<open>The duration converter\<close>

lemma hexDigit_range: "hexDigit c = Some d \<Longrightarrow> 0 \<le> d \<and> d \<le> 15"
  by (auto simp: hexDigit_def Let_def split: if_splits)

lemma hexDigit_not_space: "hexDigit c = Some d \<Longrightarrow> \<not> isWhiteSpace c"
  by (auto simp: hexDigit_def isWhiteSpace_def Let_def split: if_splits)

lemma parseHex_foldl:
  "\<forall>c\<in>set s. hexDigit c \<noteq> None \<Longrightarrow>
   parseHex acc s = Some (foldl (\<lambda>acc c. 16 * acc + digitValue c) acc s)"
  by (induction s arbitrary: acc) (auto simp: digitValue_def split: option.splits)

lemma foldl_hex_bounds:
  "\<forall>c\<in>set s. hexDigit c \<noteq> None \<Longrightarrow> 0 \<le> acc \<Longrightarrow>
   0 \<le> foldl (\<lambda>acc c. 16 * acc + digitValue c) acc s \<and>
   foldl (\<lambda>acc c. 16 * acc + digitValue c) acc s < (acc + 1) * 16 ^ length s"
proof (induction s arbitrary: acc)
  case Nil
  then show ?case by simp
next
  case (Cons c s)
  from Cons.prems obtain d where d: "hexDigit c = Some d" by auto
  then have dv: "digitValue c = d" and dr: "0 \<le> d" "d \<le> 15"
    using hexDigit_range[OF d] by (simp_all add: digitValue_def)
  have hex: "\<forall>c\<in>set s. hexDigit c \<noteq> None" using Cons.prems by simp
  have nn: "0 \<le> 16 * acc + d" using Cons.prems dr by simp
  from Cons.IH[OF hex nn]
  have ih: "0 \<le> foldl (\<lambda>acc c. 16 * acc + digitValue c) (16 * acc + d) s"
    "foldl (\<lambda>acc c. 16 * acc + digitValue c) (16 * acc + d) s < (16 * acc + d + 1) * 16 ^ length s"
    by simp_all
  have "(16 * acc + d + 1) * 16 ^ length s \<le> (16 * (acc + 1)) * (16::int) ^ length s"
    using dr by (intro mult_right_mono) simp_all
  also have "\<dots> = (acc + 1) * 16 ^ length (c # s)" by simp
  finally have "(16 * acc + d + 1) * 16 ^ length s \<le> (acc + 1) * 16 ^ length (c # s)" .
  with ih(2) have "foldl (\<lambda>acc c. 16 * acc + digitValue c) (16 * acc + d) s
      < (acc + 1) * 16 ^ length (c # s)"
    by (rule order_less_le_trans)
  with ih(1) show ?case by (simp only: foldl_Cons dv)
qed

lemma hexValue_bounds:
  assumes "\<forall>c\<in>set s. hexDigit c \<noteq> None"
  shows "0 \<le> hexValue s" and "hexValue s < 16 ^ length s"
  using foldl_hex_bounds[OF assms, of 0] by (simp_all add: hexValue_def)

lemma bigIntOfHex_hex:
  assumes "s \<noteq> []" and "\<forall>c\<in>set s. hexDigit c \<noteq> None"
  shows "bigIntOfHex s = Some (hexValue s)"
proof -
  have "rev s \<noteq> []" using assms by simp
  then obtain c cs where rs: "rev s = c # cs" by (cases "rev s") auto
  then have "c \<in> set s" by (metis list.set_intros(1) set_rev)
  then have "\<not> isWhiteSpace c" using assms(2) hexDigit_not_space by auto
  then have "dropWhile isWhiteSpace (rev s) = rev s" using rs by simp
  then show ?thesis
    using assms by (simp add: bigIntOfHex_def hexValue_def parseHex_foldl)
qed

lemma bitLength_le: "n < 2 ^ k \<Longrightarrow> bitLength n \<le> k"
proof (induction k arbitrary: n)
  case 0
  then show ?case by (simp add: bitLength.simps)
next
  case (Suc k)
  have "n div 2 < 2 ^ k" using Suc.prems by simp
  from Suc.IH[OF this] show ?case by (subst bitLength.simps) simp
qed

lemma numberOfBigInt_safe: "\<bar>b\<bar> < 2 ^ 53 \<Longrightarrow> numberOfBigInt b = b"
  using bitLength_le[of "\<bar>b\<bar>" 53] by (simp add: numberOfBigInt_def Let_def)

lemma bigIntDiv_nonneg: "0 \<le> a \<Longrightarrow> 0 < b \<Longrightarrow> bigIntDiv a b = a div b"
  by (cases "a = 0") (simp_all add: bigIntDiv_def)

lemma hexValue_16_bounds:
  assumes "16 \<le> length digest" and "\<forall>c\<in>set (take 16 digest). hexDigit c \<noteq> None"
  shows "0 \<le> hexValue (take 16 digest)" and "hexValue (take 16 digest) \<le> 2 ^ 64 - 1"
proof -
  have "length (take 16 digest) = 16" using assms(1) by simp
  with hexValue_bounds[OF assms(2)] show "0 \<le> hexValue (take 16 digest)"
    and "hexValue (take 16 digest) \<le> 2 ^ 64 - 1" by simp_all
qed

lemma hashToDuration_hex:
  assumes len: "16 \<le> length digest"
    and hex: "\<forall>c\<in>set (take 16 digest). hexDigit c \<noteq> None"
    and M: "0 < M" "M < 2 ^ 53"
  shows "hashToDuration digest M = Inr ((hexValue (take 16 digest) * M) div (2 ^ 64 - 1))"
    and "0 \<le> (hexValue (take 16 digest) * M) div (2 ^ 64 - 1)"
    and "(hexValue (take 16 digest) * M) div (2 ^ 64 - 1) \<le> M"
proof -
  let ?h = "hexValue (take 16 digest)"
  let ?d = "(?h * M) div (2 ^ 64 - 1)"
  have ne: "take 16 digest \<noteq> []" using len by auto
  note h = hexValue_16_bounds[OF len hex]
  show d0: "0 \<le> ?d" using h(1) M by (simp add: pos_imp_zdiv_nonneg_iff)
  have "?h * M \<le> (2 ^ 64 - 1) * M" using h(2) M by (intro mult_right_mono) simp_all
  then have "?d \<le> ((2 ^ 64 - 1) * M) div (2 ^ 64 - 1)" by (intro zdiv_mono1) simp_all
  then show dM: "?d \<le> M" by simp
  have "\<bar>?d\<bar> < 2 ^ 53" using d0 dM M by simp
  then have "numberOfBigInt ?d = ?d" by (rule numberOfBigInt_safe)
  moreover have "bigIntDiv (?h * M) maxUint64 = ?d"
    using h(1) M by (simp add: bigIntDiv_nonneg maxUint64_def)
  ultimately show "hashToDuration digest M = Inr ?d"
    using bigIntOfHex_hex[OF ne hex] by (simp add: hashToDuration_def Let_def)
qed

text \<open>
  C1 (as amended). For a digest whose first 16 characters are hexadecimal digits and a
  \<open>maxInterval\<close> \<open>M\<close> with \<open>0 < M < 2^53\<close>, \<open>hashToDuration\<close> returns
  \<open>floor(h * M / (2^64 - 1))\<close>, where \<open>h\<close> is the value of those 16 digits; unless the 16
  digits are all \<open>f\<close>, the result lies in the half-open range \<open>[0, M)\<close>.
\<close>

theorem hashToDuration_formula:
  assumes len: "16 \<le> length digest"
    and hex: "\<forall>c\<in>set (take 16 digest). hexDigit c \<noteq> None"
    and M: "0 < M" "M < 2 ^ 53"
  shows "\<exists>d. hashToDuration digest M = Inr d
           \<and> d = (hexValue (take 16 digest) * M) div (2 ^ 64 - 1)
           \<and> (hexValue (take 16 digest) \<noteq> 2 ^ 64 - 1 \<longrightarrow> 0 \<le> d \<and> d < M)"
proof -
  let ?h = "hexValue (take 16 digest)"
  let ?d = "(?h * M) div (2 ^ 64 - 1)"
  have "?d < M" if "?h \<noteq> 2 ^ 64 - 1"
  proof -
    have "?h < 2 ^ 64 - 1" using hexValue_16_bounds(2)[OF len hex] that by linarith
    then have "?h * M < M * (2 ^ 64 - 1)" using M by (simp add: mult.commute)
    then show ?thesis by (simp add: div_less_iff_less_mult)
  qed
  with hashToDuration_hex(1,2)[OF len hex M] show ?thesis by blast
qed

text \<open>C1, witness: the digest of the text \<open>0\<close> and the default \<open>maxInterval\<close>.\<close>

theorem hashToDuration_formula_witness:
  "16 \<le> length ''5feceb66ffc86f38d952786c6d696c79c2dbc239dd4e91b46729d73a27fb57e9''
   \<and> hashToDuration ''5feceb66ffc86f38d952786c6d696c79c2dbc239dd4e91b46729d73a27fb57e9'' 604800000
       = Inr 226623915
   \<and> hexValue ''5feceb66ffc86f38'' \<noteq> 2 ^ 64 - 1
   \<and> (226623915::int) < 604800000"
proof -
  let ?s = "''5feceb66ffc86f38d952786c6d696c79c2dbc239dd4e91b46729d73a27fb57e9''"
  have len: "16 \<le> length ?s" by simp
  have hex: "\<forall>c\<in>set (take 16 ?s). hexDigit c \<noteq> None" by (simp add: hexDigit_def)
  have hv: "hexValue ''5feceb66ffc86f38'' = 6912158355717386040"
    by (simp add: hexValue_def digitValue_def hexDigit_def)
  from hashToDuration_formula[OF len hex, of 604800000]
  show ?thesis by (simp add: hv)
qed

text \<open>
  C1 as stated fails: sixteen \<open>f\<close> and \<open>M = 1\<close> give \<open>1\<close>, which is not below \<open>M\<close>; and
  for \<open>M = 2^54\<close> the conversion of the quotient \<open>2^53 + 1\<close> to a number rounds it to
  \<open>2^53\<close>.
\<close>

theorem hashToDuration_bound_counterexample:
  "hashToDuration ''ffffffffffffffff'' 1 = Inr 1
   \<and> hashToDuration ''8000000000000400'' (2 ^ 54) = Inr (2 ^ 53)
   \<and> (hexValue ''8000000000000400'' * 2 ^ 54) div (2 ^ 64 - 1) = 2 ^ 53 + 1"
  by (simp add: hexValue_def digitValue_def hexDigit_def) code_simp

subsection \<open>The step generator\<close>

text \<open>
  C2. The next step depends on the timestamp of its predecessor alone: two steps with
  equal timestamps, whatever their other fields, give the same outcome under the same
  hash function and configuration: the same failure, or steps with equal interval, hash
  and timestamp.
\<close>

theorem calculateNextStep_timestamp_only:
  assumes "timestamp s1 = timestamp s2"
  shows "map_sum id (\<lambda>n. (interval n, hash n, timestamp n)) (calculateNextStep H s1 config)
       = map_sum id (\<lambda>n. (interval n, hash n, timestamp n)) (calculateNextStep H s2 config)"
  using assms by (simp add: calculateNextStep_def Let_def split: sum.splits)

text \<open>C2, witness: the origin step and a step that shares only its timestamp.\<close>

theorem calculateNextStep_timestamp_only_witness:
  "timestamp (originStep\<lparr>index := 41, interval := 7, hash := ''00'', isoString := ''''\<rparr>)
     = timestamp originStep
   \<and> map_sum id (\<lambda>n. (interval n, hash n, timestamp n))
        (calculateNextStep sha256_known
           (originStep\<lparr>index := 41, interval := 7, hash := ''00'', isoString := ''''\<rparr>)
           DEFAULT_CONFIG)
     = Inr (226623915, ''5feceb66ffc86f38d952786c6d696c79c2dbc239dd4e91b46729d73a27fb57e9'',
            226623915)"
proof -
  have eq: "timestamp (originStep\<lparr>index := 41, interval := 7, hash := ''00'', isoString := ''''\<rparr>)
     = timestamp originStep" by simp
  show ?thesis
    using calculateNextStep_timestamp_only[OF eq, of sha256_known DEFAULT_CONFIG]
    by (simp add: calculateNextStep_origin knownStep1_def)
qed

lemma calculateStepsForward_length:
  "calculateStepsForward H s n config = Inr ss \<Longrightarrow> length ss = n"
  by (induction n arbitrary: s ss) (auto split: sum.splits)

lemma calculateStepsForward_Suc:
  assumes "calculateStepsForward H s (Suc n) config = Inr ss"
  obtains s' ss' where "calculateNextStep H s config = Inr s'"
    and "calculateStepsForward H s' n config = Inr ss'" and "ss = s' # ss'"
  using assms by (auto split: sum.splits)

lemma findStepNearTimestamp_loop_reaches:
  assumes "calculateStepsForward H cur (Suc k) config = Inr ss"
    and "timestamp cur < target"
    and "\<forall>s\<in>set (butlast ss). timestamp s < target"
    and "target \<le> timestamp (last ss)"
  shows "findStepNearTimestamp_loop H config target cur =
         Some (Inr (if \<bar>target - timestamp (last (cur # butlast ss))\<bar> < \<bar>target - timestamp (last ss)\<bar>
                    then last (cur # butlast ss) else last ss))"
  using assms
proof (induction k arbitrary: cur ss)
  case 0
  from "0.prems"(1) obtain n where n: "calculateNextStep H cur config = Inr n" and ss: "ss = [n]"
    by (auto split: sum.splits)
  show ?case
  proof (cases "target < timestamp n")
    case True
    then show ?thesis
      using n ss "0.prems"(2)
      by (subst findStepNearTimestamp_loop.simps) (simp add: Let_def)
  next
    case False
    with "0.prems"(4) ss have eq: "timestamp n = target" by simp
    have "findStepNearTimestamp_loop H config target n = Some (Inr n)"
      using eq by (subst findStepNearTimestamp_loop.simps) simp
    then show ?thesis
      using n ss "0.prems"(2) eq False
      by (subst findStepNearTimestamp_loop.simps) simp
  qed
next
  case (Suc k)
  from Suc.prems(1) obtain n ss' where n: "calculateNextStep H cur config = Inr n"
    and fw: "calculateStepsForward H n (Suc k) config = Inr ss'" and ss: "ss = n # ss'"
    by (rule calculateStepsForward_Suc)
  have ne: "ss' \<noteq> []" using calculateStepsForward_length[OF fw] by auto
  have nlt: "timestamp n < target" using Suc.prems(3) ss ne by simp
  have bl: "\<forall>s\<in>set (butlast ss'). timestamp s < target" using Suc.prems(3) ss ne by simp
  have la: "target \<le> timestamp (last ss')" using Suc.prems(4) ss ne by simp
  have "findStepNearTimestamp_loop H config target cur = findStepNearTimestamp_loop H config target n"
    using n nlt Suc.prems(2) by (subst findStepNearTimestamp_loop.simps) simp
  also note Suc.IH[OF fw nlt bl la]
  finally show ?case using ss ne by simp
qed

text \<open>
  C4 (as amended). Let the target be after the origin, and let the chain reach it: its
  first \<open>k + 1\<close> steps after the origin are computed without a failure, the last of them
  is at or past the target and the ones before it are not. Then \<open>findStepNearTimestamp\<close>
  returns, of the last step before the target and the first step at or past it, the one
  with the smaller absolute distance to the target, and the later one when the two
  distances are equal.
\<close>

theorem findStepNearTimestamp_nearest:
  assumes "0 < target"
    and "getInitialStep H = Inr s0"
    and "calculateStepsForward H s0 (Suc k) config = Inr ss"
    and "\<forall>s\<in>set (butlast ss). timestamp s < target"
    and "target \<le> timestamp (last ss)"
  shows "findStepNearTimestamp H target config =
         Some (Inr (if \<bar>target - timestamp (last (s0 # butlast ss))\<bar> < \<bar>target - timestamp (last ss)\<bar>
                    then last (s0 # butlast ss) else last ss))
       \<and> timestamp (last (s0 # butlast ss)) < target"
proof -
  have t0: "timestamp s0 = 0"
    using assms(2) by (auto simp: getInitialStep_def split: sum.splits)
  then have lt: "timestamp s0 < target" using assms(1) by simp
  have "timestamp (last (s0 # butlast ss)) < target"
    using lt assms(4) by (cases "butlast ss = []") (auto dest: last_in_set)
  then show ?thesis
    using findStepNearTimestamp_loop_reaches[OF assms(3) lt assms(4) assms(5)] assms(2)
    by (simp add: findStepNearTimestamp_def)
qed

text \<open>C4, witness: the target 300000000 lies between the first and the second step.\<close>

theorem findStepNearTimestamp_nearest_witness:
  "(0::int) < 300000000
   \<and> getInitialStep sha256_known = Inr originStep
   \<and> calculateStepsForward sha256_known originStep (Suc (Suc 0)) DEFAULT_CONFIG
       = Inr [knownStep1, knownStep2]
   \<and> timestamp knownStep1 < 300000000 \<and> 300000000 \<le> timestamp knownStep2
   \<and> findStepNearTimestamp sha256_known 300000000 DEFAULT_CONFIG = Some (Inr knownStep1)"
proof -
  have a: "(0::int) < 300000000" by simp
  have b: "\<forall>s\<in>set (butlast [knownStep1, knownStep2]). timestamp s < 300000000"
    by (simp add: known_timestamps)
  have c: "300000000 \<le> timestamp (last [knownStep1, knownStep2])"
    by (simp add: known_timestamps)
  from findStepNearTimestamp_nearest[OF a getInitialStep_known calculateStepsForward_known2 b c]
  show ?thesis
    by (simp add: known_timestamps getInitialStep_known calculateNextStep_origin
        calculateNextStep_known1)
qed

text \<open>
  C4 as stated fails: 412652288 is as far from the first step (226623915) as from the
  second (598680661), and the later of the two is returned.
\<close>

theorem findStepNearTimestamp_tie_counterexample:
  "calculateNextStep sha256_known knownStep1 DEFAULT_CONFIG = Inr knownStep2
   \<and> \<bar>412652288 - timestamp knownStep1\<bar> = \<bar>412652288 - timestamp knownStep2\<bar>
   \<and> timestamp knownStep1 < 412652288 \<and> 412652288 < timestamp knownStep2
   \<and> findStepNearTimestamp sha256_known 412652288 DEFAULT_CONFIG = Some (Inr knownStep2)"
proof -
  have "findStepNearTimestamp_loop sha256_known DEFAULT_CONFIG 412652288 knownStep1
          = Some (Inr knownStep2)"
    by (subst findStepNearTimestamp_loop.simps)
      (simp add: calculateNextStep_known1 known_timestamps)
  then have "findStepNearTimestamp_loop sha256_known DEFAULT_CONFIG 412652288 originStep
          = Some (Inr knownStep2)"
    by (subst findStepNearTimestamp_loop.simps)
      (simp add: calculateNextStep_origin known_timestamps)
  then show ?thesis
    by (simp add: findStepNearTimestamp_def getInitialStep_known calculateNextStep_known1
        known_timestamps)
qed


lemma calculateNextStep_stuck:
  "timestamp s = 0 \<Longrightarrow>
   \<exists>s'. calculateNextStep (constHash zeroDigest) s config = Inr s' \<and> timestamp s' = 0"
  by (simp add: calculateNextStep_def constHash_def hashToDuration_zeroDigest toISOString_zero)





text \<open>
  C9 fails on the code. The range from 1 to 2: the step returned first is the origin, at
  timestamp 0, before the start. The range from 226623914 to 226623914: the only step
  returned is the first step, at 226623915, after the end.
\<close>

theorem calculateStepsInRange_first_step_outside:
  "calculateStepsInRange sha256_known 1 2 DEFAULT_CONFIG = Some (Inr [originStep])
   \<and> timestamp originStep < 1
   \<and> calculateStepsInRange sha256_known 226623914 226623914 DEFAULT_CONFIG
       = Some (Inr [knownStep1])
   \<and> 226623914 < timestamp knownStep1"
proof -
  have "findStepNearTimestamp_loop sha256_known DEFAULT_CONFIG 1 originStep
          = Some (Inr originStep)"
    by (subst findStepNearTimestamp_loop.simps)
      (simp add: calculateNextStep_origin known_timestamps)
  then have near: "findStepNearTimestamp sha256_known 1 DEFAULT_CONFIG = Some (Inr originStep)"
    by (simp add: findStepNearTimestamp_def getInitialStep_known)
  have "calculateStepsInRange_loop sha256_known DEFAULT_CONFIG 2 knownStep1 [originStep]
          = Some (Inr [originStep])"
    by (subst calculateStepsInRange_loop.simps) (simp add: known_timestamps)
  then have "calculateStepsInRange_loop sha256_known DEFAULT_CONFIG 2 originStep [originStep]
          = Some (Inr [originStep])"
    by (subst calculateStepsInRange_loop.simps)
      (simp add: calculateNextStep_origin known_timestamps)
  then have a: "calculateStepsInRange sha256_known 1 2 DEFAULT_CONFIG = Some (Inr [originStep])"
    by (simp add: calculateStepsInRange_def near)
  have "findStepNearTimestamp_loop sha256_known DEFAULT_CONFIG 226623914 originStep
          = Some (Inr knownStep1)"
    by (subst findStepNearTimestamp_loop.simps)
      (simp add: calculateNextStep_origin known_timestamps)
  then have near': "findStepNearTimestamp sha256_known 226623914 DEFAULT_CONFIG
      = Some (Inr knownStep1)"
    by (simp add: findStepNearTimestamp_def getInitialStep_known)
  have "calculateStepsInRange_loop sha256_known DEFAULT_CONFIG 226623914 knownStep1 [knownStep1]
          = Some (Inr [knownStep1])"
    by (subst calculateStepsInRange_loop.simps) (simp add: known_timestamps)
  then have b: "calculateStepsInRange sha256_known 226623914 226623914 DEFAULT_CONFIG
      = Some (Inr [knownStep1])"
    by (simp add: calculateStepsInRange_def near')
  show ?thesis using a b by (simp add: known_timestamps)
qed

subsection \<open>The step cache\<close>

text \<open>
  C5 fails on the code. After \<open>set\<close> of the origin step on a new cache, the checkpoint of
  index 0 is recorded and lies before index 1500, and \<open>getNearestCheckpoint(1500)\<close>
  returns nothing: it looks up index 1000 only.
\<close>

theorem getNearestCheckpoint_misses_earlier:
  "getNearestCheckpoint (runOps [CacheSet originStep 0]) 1500 = None
   \<and> mapGet (checkpoints (runOps [CacheSet originStep 0])) 0 = Some originStep
   \<and> index originStep \<le> 1500"
  by (simp add: getNearestCheckpoint_def runOps_def set_cache_def newStepCache_def mapGet_def
      originStep_def Let_def)

subsection \<open>Rounding to a double\<close>

lemma floor_log2_eq:
  assumes "2 powi e \<le> a" "a < 2 powi (e + 1)"
  shows "\<lfloor>log 2 a\<rfloor> = e"
proof -
  have pos: "0 < a" using assms(1) by (smt (verit) zero_less_power_int)
  have "(2::real) powr real_of_int e = 2 powi e"
    by (rule powr_real_of_int') simp_all
  moreover have "(2::real) powr real_of_int (e + 1) = 2 powi (e + 1)"
    by (rule powr_real_of_int') simp_all
  ultimately have "2 powr real_of_int e \<le> a \<and> a < 2 powr real_of_int (e + 1)"
    using assms by simp
  then show ?thesis using pos floor_log_eq_powr_iff[of a 2 e] by simp
qed

lemma roundDouble_eval:
  assumes "2 powi e \<le> \<bar>x\<bar>" "\<bar>x\<bar> < 2 powi (e + 1)" "- 1022 \<le> e"
  shows "roundDouble x = roundAt e x"
proof -
  have "0 < \<bar>x\<bar>" using assms(1) by (smt (verit) zero_less_power_int)
  then have "x \<noteq> 0" by simp
  moreover have "\<lfloor>log 2 \<bar>x\<bar>\<rfloor> = e" using assms(1,2) by (rule floor_log2_eq)
  ultimately show ?thesis using assms(3) by (simp add: roundDouble_def max_def)
qed

lemma roundHalfEven_int: "roundHalfEven (of_int n) = n"
  by (simp add: roundHalfEven_def)

lemma roundAt_exact:
  assumes "x \<noteq> 0" "\<bar>x\<bar> / 2 powi (e - 52) = of_int n" "\<bar>x\<bar> < 2 ^ 1024"
  shows "roundAt e x = Fin x"
proof -
  have u: "(2::real) powi (e - 52) > 0" by simp
  have y: "of_int n * 2 powi (e - 52) = \<bar>x\<bar>"
    using assms(2) u by (simp add: field_simps)
  have n: "n \<noteq> 0" using y assms(1) by auto
  have m: "roundHalfEven (\<bar>x\<bar> / 2 powi (e - 52)) = n"
    by (simp only: assms(2) roundHalfEven_int)
  have "roundAt e x = Fin (if 0 < x then \<bar>x\<bar> else - \<bar>x\<bar>)"
    unfolding roundAt_def Let_def m y using n assms(3) by simp
  then show ?thesis by (simp add: abs_if)
qed

text \<open>Every integer up to \<open>2^53\<close> in magnitude is a double.\<close>

lemma roundDouble_int:
  assumes "i \<noteq> 0" "\<bar>i\<bar> \<le> 2 ^ 53"
  shows "roundDouble (of_int i) = Fin (of_int i)"
proof -
  define a :: real where "a = \<bar>of_int i\<bar>"
  define e where "e = \<lfloor>log 2 a\<rfloor>"
  have a1: "1 \<le> a" using assms(1) by (simp add: a_def)
  have a2: "a \<le> 2 ^ 53" using assms(2) unfolding a_def
    by (metis of_int_abs of_int_le_numeral_power_cancel_iff)
  have "2 powr real_of_int e \<le> a \<and> a < 2 powr real_of_int (e + 1)"
    using a1 floor_log_eq_powr_iff[of a 2 e] by (simp add: e_def)
  moreover have "(2::real) powr real_of_int e = 2 powi e"
    by (rule powr_real_of_int') simp_all
  moreover have "(2::real) powr real_of_int (e + 1) = 2 powi (e + 1)"
    by (rule powr_real_of_int') simp_all
  ultimately have b: "2 powi e \<le> a" "a < 2 powi (e + 1)" by simp_all
  have e0: "0 \<le> e" using a1 by (simp add: e_def)
  have "e < 54"
  proof (rule ccontr)
    assume "\<not> e < 54"
    then have "54 \<le> e" by simp
    then have "(2::real) powi 54 \<le> 2 powi e" by (intro power_int_increasing) simp_all
    then show False using b(1) a2 by simp
  qed
  then have e53: "e \<le> 53" by simp
  have big: "a < 2 ^ 1024"
  proof -
    have "(2::real) ^ 53 < 2 ^ 1024" by (rule power_strict_increasing) simp_all
    with a2 show ?thesis by linarith
  qed
  have "\<exists>n. a / 2 powi (e - 52) = of_int n"
  proof (cases "e \<le> 52")
    case True
    then have "(2::real) powi (e - 52) = 1 / 2 ^ nat (52 - e)"
      by (simp add: power_int_def field_simps)
    then have "a / 2 powi (e - 52) = of_int (\<bar>i\<bar> * 2 ^ nat (52 - e))" by (simp add: a_def)
    then show ?thesis ..
  next
    case False
    then have e: "e = 53" using e53 by simp
    then have "2 ^ 53 \<le> a" using b(1) by simp
    then have "a = 2 ^ 53" using a2 by simp
    then have "a / 2 powi (e - 52) = of_int (2 ^ 52)" by (simp add: e)
    then show ?thesis ..
  qed
  then obtain n where n: "\<bar>real_of_int i\<bar> / 2 powi (e - 52) = of_int n" unfolding a_def ..
  have "roundDouble (of_int i) = roundAt e (of_int i)"
    using b e0 by (intro roundDouble_eval) (simp_all add: a_def)
  also have "\<dots> = Fin (of_int i)"
    using assms(1) n big by (intro roundAt_exact) (simp_all add: a_def)
  finally show ?thesis .
qed

lemma roundDouble_nat:
  assumes "0 < n" "n \<le> 2 ^ 53"
  shows "roundDouble (real n) = Fin (real n)"
proof -
  have "int n \<le> int (2 ^ 53)" using assms(2) by (simp only: of_nat_le_iff)
  then have "\<bar>int n\<bar> \<le> 2 ^ 53" by simp
  then show ?thesis using roundDouble_int[of "int n"] assms(1) by simp
qed

lemma roundHalfEven_nearest:
  assumes "\<bar>q - of_int m\<bar> < 1 / 2 \<or> (\<bar>q - of_int m\<bar> = 1 / 2 \<and> even m)"
  shows "roundHalfEven q = m"
proof (cases "of_int m \<le> q")
  case True
  then have f: "\<lfloor>q\<rfloor> = m" using assms by (intro floor_unique) auto
  show ?thesis using assms True by (auto simp add: roundHalfEven_def Let_def f)
next
  case False
  then have f: "\<lfloor>q\<rfloor> = m - 1" using assms by (intro floor_unique) auto
  show ?thesis using assms False by (auto simp add: roundHalfEven_def Let_def f)
qed

text \<open>
  The double of a positive \<open>x\<close> below \<open>2^53\<close>, by its significand \<open>m\<close>: with \<open>x * 2^k\<close>
  between \<open>2^52\<close> and \<open>2^53\<close>, it is \<open>m / 2^k\<close> for the integer \<open>m\<close> nearest to \<open>x * 2^k\<close>.
\<close>

lemma roundDouble_dyadic:
  assumes "2 ^ 52 \<le> x * 2 ^ k" "x * 2 ^ k < 2 ^ 53" "k \<le> 1074"
    and "\<bar>x * 2 ^ k - of_int m\<bar> < 1 / 2 \<or> (\<bar>x * 2 ^ k - of_int m\<bar> = 1 / 2 \<and> even m)"
  shows "roundDouble x = Fin (of_int m / 2 ^ k)"
proof -
  define e where "e = 52 - int k"
  have pk: "(2::real) ^ k > 0" by simp
  have x0: "0 < x" using assms(1) pk by (smt (verit) mult_nonpos_nonneg zero_less_power)
  have p1: "(2::real) powi e = 2 ^ 52 / 2 ^ k"
    unfolding e_def by (simp add: power_int_diff)
  have p2: "(2::real) powi (e + 1) = 2 ^ 53 / 2 ^ k"
    unfolding e_def by (simp add: power_int_diff power_int_add)
  have p3: "(2::real) powi (e - 52) = 1 / 2 ^ k"
    unfolding e_def by (simp add: power_int_minus field_simps)
  have "roundDouble x = roundAt e x"
  proof (rule roundDouble_eval)
    show "2 powi e \<le> \<bar>x\<bar>" using assms(1) x0 pk by (simp add: p1 field_simps)
    have "x < 2 ^ 53 / 2 ^ k" using assms(2) pk by (simp add: field_simps)
    then show "\<bar>x\<bar> < 2 powi (e + 1)" using x0 by (simp only: p2 abs_of_pos)
    show "- 1022 \<le> e" using assms(3) by (simp add: e_def)
  qed
  moreover have m: "roundHalfEven (\<bar>x\<bar> / 2 powi (e - 52)) = m"
    using assms(4) x0 by (intro roundHalfEven_nearest) (simp add: p3)
  moreover have mpos: "0 < m" using assms(1,4) by (auto simp add: abs_if split: if_splits)
  moreover have "real_of_int m \<le> 2 ^ 53 + 1"
    using assms(2,4) by (auto simp add: abs_if split: if_splits)
  then have "real_of_int m / 2 ^ k < 2 ^ 1024"
  proof -
    assume a: "real_of_int m \<le> 2 ^ 53 + 1"
    have "real_of_int m / 2 ^ k \<le> real_of_int m"
      using mpos by (simp add: field_simps mult_le_cancel_left1 self_le_ge2_pow)
    then show ?thesis using a by simp
  qed
  ultimately show ?thesis using x0
    by (simp add: roundAt_def Let_def p3)
qed

lemma roundDouble_dyadic_neg:
  assumes "2 ^ 52 \<le> x * 2 ^ k" "x * 2 ^ k < 2 ^ 53" "k \<le> 1074"
    and "\<bar>x * 2 ^ k - of_int m\<bar> < 1 / 2 \<or> (\<bar>x * 2 ^ k - of_int m\<bar> = 1 / 2 \<and> even m)"
  shows "roundDouble (- x) = Fin (- (of_int m / 2 ^ k))"
proof -
  define e where "e = 52 - int k"
  have pk: "(2::real) ^ k > 0" by simp
  have x0: "0 < x" using assms(1) pk by (smt (verit) mult_nonpos_nonneg zero_less_power)
  have p1: "(2::real) powi e = 2 ^ 52 / 2 ^ k"
    unfolding e_def by (simp add: power_int_diff)
  have p2: "(2::real) powi (e + 1) = 2 ^ 53 / 2 ^ k"
    unfolding e_def by (simp add: power_int_diff power_int_add)
  have p3: "(2::real) powi (e - 52) = 1 / 2 ^ k"
    unfolding e_def by (simp add: power_int_minus field_simps)
  have "roundDouble (- x) = roundAt e (- x)"
  proof (rule roundDouble_eval)
    show "2 powi e \<le> \<bar>- x\<bar>" using assms(1) x0 pk by (simp add: p1 field_simps)
    have "x < 2 ^ 53 / 2 ^ k" using assms(2) pk by (simp add: field_simps)
    then show "\<bar>- x\<bar> < 2 powi (e + 1)" using x0 by (simp only: p2 abs_minus_cancel abs_of_pos)
    show "- 1022 \<le> e" using assms(3) by (simp add: e_def)
  qed
  moreover have m: "roundHalfEven (\<bar>- x\<bar> / 2 powi (e - 52)) = m"
    using assms(4) x0 by (intro roundHalfEven_nearest) (simp add: p3)
  moreover have mpos: "0 < m" using assms(1,4) by (auto simp add: abs_if split: if_splits)
  moreover have "real_of_int m \<le> 2 ^ 53 + 1"
    using assms(2,4) by (auto simp add: abs_if split: if_splits)
  then have "real_of_int m / 2 ^ k < 2 ^ 1024"
  proof -
    assume a: "real_of_int m \<le> 2 ^ 53 + 1"
    have "real_of_int m / 2 ^ k \<le> real_of_int m"
      using mpos by (simp add: field_simps mult_le_cancel_left1 self_le_ge2_pow)
    then show ?thesis using a by simp
  qed
  ultimately show ?thesis using x0
    by (simp add: roundAt_def Let_def p3)
qed

subsection \<open>Whole numbers in double arithmetic\<close>

text \<open>The operations on finite numbers.\<close>

lemma nAdd_Fin:
  "a \<noteq> 0 \<Longrightarrow> b \<noteq> 0
   \<Longrightarrow> nAdd (Fin a) (Fin b) = (if a + b = 0 then Fin 0 else roundDouble (a + b))"
  by (simp add: nAdd_def isZero_def isInf_def)

lemma nAdd_zero: "nAdd (Fin 0) (Fin b) = Fin b" "nAdd (Fin a) (Fin 0) = Fin a"
  by (simp_all add: nAdd_def isZero_def isInf_def)

lemma nSub_Fin:
  "a \<noteq> 0 \<Longrightarrow> b \<noteq> 0
   \<Longrightarrow> nSub (Fin a) (Fin b) = (if a = b then Fin 0 else roundDouble (a - b))"
  by (simp add: nSub_def nAdd_def isZero_def isInf_def)

lemma nSub_zero: "nSub (Fin a) (Fin 0) = Fin a" "b \<noteq> 0 \<Longrightarrow> nSub (Fin 0) (Fin b) = Fin (- b)"
  by (simp_all add: nSub_def nAdd_def isZero_def isInf_def)

lemma nMul_Fin: "a \<noteq> 0 \<Longrightarrow> b \<noteq> 0 \<Longrightarrow> nMul (Fin a) (Fin b) = roundDouble (a * b)"
  by (simp add: nMul_def isZero_def isInf_def)

lemma nMul_zero:
  "nMul (Fin 0) (Fin b) = zeroOf (b < 0)" "nMul (Fin a) (Fin 0) = zeroOf (a < 0)"
  by (simp_all add: nMul_def isZero_def isInf_def)

lemma nDiv_Fin: "a \<noteq> 0 \<Longrightarrow> b \<noteq> 0 \<Longrightarrow> nDiv (Fin a) (Fin b) = roundDouble (a / b)"
  by (simp add: nDiv_def isZero_def isInf_def)

lemma nDiv_zero: "b \<noteq> 0 \<Longrightarrow> nDiv (Fin 0) (Fin b) = zeroOf (b < 0)"
  by (simp add: nDiv_def isZero_def isInf_def)

lemma nSqrt_Fin: "0 < a \<Longrightarrow> nSqrt (Fin a) = roundDouble (sqrt a)" "nSqrt (Fin 0) = Fin 0"
  by (simp_all add: nSqrt_def isZero_def)

lemma nLt_Fin: "nLt (Fin a) (Fin b) = (a < b)"
  by (simp add: nLt_def)

lemma nMax_Fin: "nMax (Fin a) (Fin b) = Fin (max a b)"
  by (auto simp add: nMax_def nLt_def max_def)

lemma nMin_Fin: "nMin (Fin a) (Fin b) = Fin (min a b)"
  by (auto simp add: nMin_def nLt_def min_def)

lemma isZero_Fin: "isZero (Fin a) = (a = 0)"
  by (simp add: isZero_def)

lemma roundDouble_one: "roundDouble 1 = Fin 1"
  using roundDouble_int[of 1] by simp

lemma roundDouble_minus_one: "roundDouble (- 1) = Fin (- 1)"
  using roundDouble_int[of "- 1"] by simp

lemma roundDouble_numeral:
  "(numeral n :: int) \<le> 2 ^ 53 \<Longrightarrow> roundDouble (numeral n) = Fin (numeral n)"
  using roundDouble_int[of "numeral n"] by simp

lemma roundDouble_neg_numeral:
  "(numeral n :: int) \<le> 2 ^ 53 \<Longrightarrow> roundDouble (- numeral n) = Fin (- numeral n)"
  using roundDouble_int[of "- numeral n"] by simp

lemmas number_simps =
  nAdd_Fin nAdd_zero nSub_Fin nSub_zero nMul_Fin nMul_zero nDiv_Fin nDiv_zero nSqrt_Fin
  nLt_Fin nMax_Fin nMin_Fin isZero_Fin zeroOf_def roundDouble_one roundDouble_minus_one roundDouble_numeral
  roundDouble_neg_numeral


lemma nAdd_nat:
  assumes "a + b \<le> 2 ^ 53"
  shows "nAdd (Fin (real a)) (Fin (real b)) = Fin (real (a + b))"
proof -
  have "a + b \<noteq> 0 \<Longrightarrow> roundDouble (real (a + b)) = Fin (real (a + b))"
    using assms by (intro roundDouble_nat) simp_all
  then show ?thesis
    by (auto simp add: nAdd_def isZero_def isInf_def)
qed

lemma nSub_nat:
  assumes "a \<le> 2 ^ 53" "b \<le> 2 ^ 53"
  shows "nSub (Fin (real a)) (Fin (real b)) = Fin (real a - real b)"
proof -
  have "int a \<le> int (2 ^ 53)" "int b \<le> int (2 ^ 53)"
    using assms by (simp_all only: of_nat_le_iff)
  then have i: "\<bar>int a - int b\<bar> \<le> 2 ^ 53" by simp
  have "int a - int b \<noteq> 0 \<Longrightarrow> roundDouble (of_int (int a - int b)) = Fin (of_int (int a - int b))"
    using i by (intro roundDouble_int) simp_all
  then have r: "real a \<noteq> real b \<Longrightarrow> roundDouble (real a - real b) = Fin (real a - real b)"
    by simp
  show ?thesis
  proof (cases "b = 0")
    case True
    then show ?thesis by (simp add: nSub_def nAdd_def isZero_def isInf_def)
  next
    case False
    then show ?thesis
      using r by (cases "a = 0") (simp_all add: nSub_def nAdd_def isZero_def isInf_def)
  qed
qed

lemma nLe_Fin: "nLe (Fin a) (Fin b) = (a \<le> b)"
  by (auto simp add: nLe_def nLt_def)

lemma nGt_Fin: "nGt (Fin a) (Fin b) = (b < a)"
  by (simp add: nGt_def nLt_def)

lemma relativeIndex_nat: "relativeIndex len (Fin (real j)) = min j len"
  by (simp add: relativeIndex_def Let_def)

lemma sliceJS_nat:
  "sliceJS xs (Fin (real k)) (Fin (real j)) = take (min j (length xs) - k) (drop k xs)"
  by (cases "k \<le> length xs") (simp_all add: sliceJS_def Let_def relativeIndex_nat min_def)

lemma sliceJS_window:
  assumes "k + w \<le> 2 ^ 53"
  shows "sliceJS xs (Fin (real k)) (nAdd (Fin (real k)) (Fin (real w)))
         = take (min (k + w) (length xs) - k) (drop k xs)"
  by (simp only: nAdd_nat[OF assms] sliceJS_nat)

subsection \<open>The similarity score\<close>

lemma clamp_unit_interval:
  "nMax (Fin 0) (nMin (Fin 1) x) = NaN
   \<or> (\<exists>r. nMax (Fin 0) (nMin (Fin 1) x) = Fin r \<and> 0 \<le> r \<and> r \<le> 1)"
  by (cases x) (auto simp add: nMax_def nMin_def nLt_def)

lemma calculateSimilarity_unit_interval:
  "calculateSimilarity userIntervals quantumIntervals M = NaN
   \<or> (\<exists>r. calculateSimilarity userIntervals quantumIntervals M = Fin r \<and> 0 \<le> r \<and> r \<le> 1)"
  using clamp_unit_interval by (simp add: calculateSimilarity_def Let_def)










lemma round_half: "roundDouble (1 / 2) = Fin (1 / 2)"
  using roundDouble_dyadic[of "1 / 2" 53 "2 ^ 52"] by simp

















subsection \<open>The sliding-window search\<close>

lemma windowScore_nat:
  assumes "j + w \<le> length q" "length q \<le> 2 ^ 53"
  shows "windowScore u q (Fin (real w)) j
         = calculateSimilarity u (take w (drop j q)) defaultMaxInterval"
proof -
  have "j + w \<le> 2 ^ 53" using assms by simp
  from sliceJS_window[OF this, of q] show ?thesis
    using assms(1) by (simp add: windowScore_def min_def)
qed

lemma windowScore_unit_interval:
  "windowScore u q t j = NaN \<or> (\<exists>r. windowScore u q t j = Fin r \<and> 0 \<le> r \<and> r \<le> 1)"
  unfolding windowScore_def by (rule calculateSimilarity_unit_interval)

text \<open>One iteration of the loop, for a window length and an offset that are whole numbers.\<close>

lemma findBestAlignment_loop_nat:
  assumes "length q < 2 ^ 53" "w \<le> 2 ^ 53"
  shows "findBestAlignment_loop u q (Fin (real w)) (Fin (real k)) bs bo =
     (if k + w \<le> length q then
        (if nGt (windowScore u q (Fin (real w)) k) bs
         then findBestAlignment_loop u q (Fin (real w)) (Fin (real (Suc k)))
                (windowScore u q (Fin (real w)) k) (Fin (real k))
         else findBestAlignment_loop u q (Fin (real w)) (Fin (real (Suc k))) bs bo)
      else Some (bs, bo))"
proof -
  have bound: "nSub (Fin (real (length q))) (Fin (real w)) = Fin (real (length q) - real w)"
    using assms by (intro nSub_nat) simp_all
  have cond: "nLe (Fin (real k)) (Fin (real (length q) - real w)) = (k + w \<le> length q)"
    by (auto simp add: nLe_Fin)
  show ?thesis
  proof (cases "k + w \<le> length q")
    case False
    then show ?thesis
      by (subst findBestAlignment_loop.simps) (simp add: bound cond)
  next
    case True
    have "nAdd (Fin (real k)) (Fin (real 1)) = Fin (real (k + 1))"
      using True assms(1) by (intro nAdd_nat) simp
    then have next': "nAdd (Fin (real k)) (Fin 1) = Fin (real (Suc k))" by simp
    show ?thesis
      using True
      by (subst findBestAlignment_loop.simps)
        (simp add: bound cond next' windowScore_def Let_def)
  qed
qed

text \<open>
  What the loop returns, from the offset \<open>k\<close> on, the best score so far being \<open>b\<close>: either
  no window beats \<open>b\<close>, or the first of the windows of the greatest score does. \<open>r j\<close> is the
  score of the window \<open>j\<close>, and a number below \<open>-1\<close> when that score is \<open>NaN\<close>.
\<close>

lemma findBestAlignment_loop_first_max:
  assumes "length q < 2 ^ 53" "w \<le> 2 ^ 53"
    and "\<forall>j. j + w \<le> length q \<longrightarrow>
           windowScore u q (Fin (real w)) j = Fin (r j) \<and> - 1 < r j
           \<or> windowScore u q (Fin (real w)) j = NaN \<and> r j < - 1"
  shows "- 1 \<le> b \<Longrightarrow>
       (findBestAlignment_loop u q (Fin (real w)) (Fin (real k)) (Fin b) bo = Some (Fin b, bo)
          \<and> (\<forall>j. k \<le> j \<and> j + w \<le> length q \<longrightarrow> r j \<le> b))
       \<or> (\<exists>m. findBestAlignment_loop u q (Fin (real w)) (Fin (real k)) (Fin b) bo
                 = Some (Fin (r m), Fin (real m))
              \<and> k \<le> m \<and> m + w \<le> length q \<and> b < r m
              \<and> (\<forall>j. k \<le> j \<and> j + w \<le> length q \<longrightarrow> r j \<le> r m)
              \<and> (\<forall>j. k \<le> j \<and> j < m \<longrightarrow> r j < r m))"
proof (induction "Suc (length q) - k" arbitrary: k b bo)
  case 0
  then have "\<not> k + w \<le> length q" by simp
  then show ?case by (subst findBestAlignment_loop_nat[OF assms(1,2)]) auto
next
  case (Suc n)
  then have n: "n = Suc (length q) - Suc k" by simp
  note unfold = findBestAlignment_loop_nat[OF assms(1,2)]
  show ?case
  proof (cases "k + w \<le> length q")
    case False
    then show ?thesis by (subst unfold) auto
  next
    case True
    have gt: "nGt (windowScore u q (Fin (real w)) k) (Fin b) = (b < r k)"
      using assms(3)[rule_format, OF True] Suc.prems by (auto simp add: nGt_Fin nGt_def nLt_def)
    have split: "\<And>j. k \<le> j \<longleftrightarrow> j = k \<or> Suc k \<le> j" by auto
    show ?thesis
    proof (cases "b < r k")
      case up: True
      then have sc: "windowScore u q (Fin (real w)) k = Fin (r k)" "- 1 \<le> r k"
        using assms(3)[rule_format, OF True] Suc.prems by auto
      have step: "findBestAlignment_loop u q (Fin (real w)) (Fin (real k)) (Fin b) bo
          = findBestAlignment_loop u q (Fin (real w)) (Fin (real (Suc k))) (Fin (r k)) (Fin (real k))"
        using True gt up sc by (subst unfold) simp
      from Suc.hyps(1)[OF n sc(2), of "Fin (real k)"]
      show ?thesis
      proof
        assume a: "findBestAlignment_loop u q (Fin (real w)) (Fin (real (Suc k))) (Fin (r k))
              (Fin (real k)) = Some (Fin (r k), Fin (real k))
          \<and> (\<forall>j. Suc k \<le> j \<and> j + w \<le> length q \<longrightarrow> r j \<le> r k)"
        have "findBestAlignment_loop u q (Fin (real w)) (Fin (real k)) (Fin b) bo
                = Some (Fin (r k), Fin (real k))
              \<and> k \<le> k \<and> k + w \<le> length q \<and> b < r k
              \<and> (\<forall>j. k \<le> j \<and> j + w \<le> length q \<longrightarrow> r j \<le> r k)
              \<and> (\<forall>j. k \<le> j \<and> j < k \<longrightarrow> r j < r k)"
          using a step True up by (auto simp: split)
        then show ?thesis by blast
      next
        assume "\<exists>m. findBestAlignment_loop u q (Fin (real w)) (Fin (real (Suc k))) (Fin (r k))
                  (Fin (real k)) = Some (Fin (r m), Fin (real m))
              \<and> Suc k \<le> m \<and> m + w \<le> length q \<and> r k < r m
              \<and> (\<forall>j. Suc k \<le> j \<and> j + w \<le> length q \<longrightarrow> r j \<le> r m)
              \<and> (\<forall>j. Suc k \<le> j \<and> j < m \<longrightarrow> r j < r m)"
        then obtain m where m:
          "findBestAlignment_loop u q (Fin (real w)) (Fin (real (Suc k))) (Fin (r k))
                  (Fin (real k)) = Some (Fin (r m), Fin (real m))"
          "Suc k \<le> m" "m + w \<le> length q" "r k < r m"
          "\<forall>j. Suc k \<le> j \<and> j + w \<le> length q \<longrightarrow> r j \<le> r m"
          "\<forall>j. Suc k \<le> j \<and> j < m \<longrightarrow> r j < r m" by blast
        have "findBestAlignment_loop u q (Fin (real w)) (Fin (real k)) (Fin b) bo
                = Some (Fin (r m), Fin (real m))
              \<and> k \<le> m \<and> m + w \<le> length q \<and> b < r m
              \<and> (\<forall>j. k \<le> j \<and> j + w \<le> length q \<longrightarrow> r j \<le> r m)
              \<and> (\<forall>j. k \<le> j \<and> j < m \<longrightarrow> r j < r m)"
          using m step up by (auto simp: split)
        then show ?thesis by blast
      qed
    next
      case keep: False
      then have step: "findBestAlignment_loop u q (Fin (real w)) (Fin (real k)) (Fin b) bo
          = findBestAlignment_loop u q (Fin (real w)) (Fin (real (Suc k))) (Fin b) bo"
        using True gt by (subst unfold) simp
      from Suc.hyps(1)[OF n Suc.prems, of bo]
      show ?thesis
      proof
        assume a: "findBestAlignment_loop u q (Fin (real w)) (Fin (real (Suc k))) (Fin b) bo
              = Some (Fin b, bo)
          \<and> (\<forall>j. Suc k \<le> j \<and> j + w \<le> length q \<longrightarrow> r j \<le> b)"
        have "findBestAlignment_loop u q (Fin (real w)) (Fin (real k)) (Fin b) bo = Some (Fin b, bo)
          \<and> (\<forall>j. k \<le> j \<and> j + w \<le> length q \<longrightarrow> r j \<le> b)"
          using a step keep by (auto simp: split)
        then show ?thesis by blast
      next
        assume "\<exists>m. findBestAlignment_loop u q (Fin (real w)) (Fin (real (Suc k))) (Fin b) bo
                  = Some (Fin (r m), Fin (real m))
              \<and> Suc k \<le> m \<and> m + w \<le> length q \<and> b < r m
              \<and> (\<forall>j. Suc k \<le> j \<and> j + w \<le> length q \<longrightarrow> r j \<le> r m)
              \<and> (\<forall>j. Suc k \<le> j \<and> j < m \<longrightarrow> r j < r m)"
        then obtain m where m:
          "findBestAlignment_loop u q (Fin (real w)) (Fin (real (Suc k))) (Fin b) bo
                  = Some (Fin (r m), Fin (real m))"
          "Suc k \<le> m" "m + w \<le> length q" "b < r m"
          "\<forall>j. Suc k \<le> j \<and> j + w \<le> length q \<longrightarrow> r j \<le> r m"
          "\<forall>j. Suc k \<le> j \<and> j < m \<longrightarrow> r j < r m" by blast
        have "r k < r m" using keep m(4) by simp
        then have "findBestAlignment_loop u q (Fin (real w)) (Fin (real k)) (Fin b) bo
                = Some (Fin (r m), Fin (real m))
              \<and> k \<le> m \<and> m + w \<le> length q \<and> b < r m
              \<and> (\<forall>j. k \<le> j \<and> j + w \<le> length q \<longrightarrow> r j \<le> r m)
              \<and> (\<forall>j. k \<le> j \<and> j < m \<longrightarrow> r j < r m)"
          using m step by (auto simp: split)
        then show ?thesis by blast
      qed
    qed
  qed
qed

text \<open>
  The search from the start, for a window length \<open>w\<close> that is a whole number: it ends, and
  returns offset 0 when no window has a score, and else the first of the windows of the
  greatest score.
\<close>

lemma findBestAlignment_loop_result:
  assumes "length q < 2 ^ 53" "w \<le> 2 ^ 53"
  shows "\<exists>bs m. findBestAlignment_loop u q (Fin (real w)) (Fin 0) (Fin (- 1)) (Fin 0)
                  = Some (bs, Fin (real m))
          \<and> (m = 0 \<or> m + w \<le> length q)
          \<and> ((\<exists>j. j + w \<le> length q \<and> windowScore u q (Fin (real w)) j \<noteq> NaN) \<longrightarrow>
                m + w \<le> length q
                \<and> windowScore u q (Fin (real w)) m \<noteq> NaN
                \<and> (\<forall>j. j + w \<le> length q \<longrightarrow>
                      \<not> nGt (windowScore u q (Fin (real w)) j) (windowScore u q (Fin (real w)) m))
                \<and> (\<forall>j<m. windowScore u q (Fin (real w)) j = NaN
                      \<or> nGt (windowScore u q (Fin (real w)) m) (windowScore u q (Fin (real w)) j)))"
proof -
  let ?S = "windowScore u q (Fin (real w))"
  define r where "r j = (case ?S j of Fin x \<Rightarrow> x | _ \<Rightarrow> - 2)" for j
  have sc: "?S j = Fin (r j) \<and> - 1 < r j \<or> ?S j = NaN \<and> r j < - 1" for j
    using windowScore_unit_interval[of u q "Fin (real w)" j] by (auto simp add: r_def)
  then have all: "\<forall>j. j + w \<le> length q \<longrightarrow> ?S j = Fin (r j) \<and> - 1 < r j \<or> ?S j = NaN \<and> r j < - 1"
    by blast
  have z: "Fin 0 = Fin (real 0)" by simp
  have "- 1 \<le> (- 1 :: real)" by simp
  from findBestAlignment_loop_first_max[OF assms all this, where k = 0 and bo = "Fin 0"]
  show ?thesis
  proof
    assume a: "findBestAlignment_loop u q (Fin (real w)) (Fin (real 0)) (Fin (- 1)) (Fin 0)
          = Some (Fin (- 1), Fin 0)
        \<and> (\<forall>j. 0 \<le> j \<and> j + w \<le> length q \<longrightarrow> r j \<le> - 1)"
    have none: "?S j = NaN" if "j + w \<le> length q" for j
      using a that sc[of j] by force
    have "findBestAlignment_loop u q (Fin (real w)) (Fin 0) (Fin (- 1)) (Fin 0)
            = Some (Fin (- 1), Fin (real 0))"
      using a by simp
    then show ?thesis using none by blast
  next
    assume "\<exists>m. findBestAlignment_loop u q (Fin (real w)) (Fin (real 0)) (Fin (- 1)) (Fin 0)
              = Some (Fin (r m), Fin (real m))
          \<and> 0 \<le> m \<and> m + w \<le> length q \<and> - 1 < r m
          \<and> (\<forall>j. 0 \<le> j \<and> j + w \<le> length q \<longrightarrow> r j \<le> r m)
          \<and> (\<forall>j. 0 \<le> j \<and> j < m \<longrightarrow> r j < r m)"
    then obtain m where m:
      "findBestAlignment_loop u q (Fin (real w)) (Fin 0) (Fin (- 1)) (Fin 0)
          = Some (Fin (r m), Fin (real m))"
      "m + w \<le> length q" "- 1 < r m"
      "\<forall>j. j + w \<le> length q \<longrightarrow> r j \<le> r m" "\<forall>j. j < m \<longrightarrow> r j < r m"
      by auto
    have Sm: "?S m = Fin (r m)" using sc[of m] m(3) by auto
    have 1: "\<not> nGt (?S j) (?S m)" if "j + w \<le> length q" for j
      using m(4)[rule_format, OF that] sc[of j] Sm by (auto simp add: nGt_def nLt_def)
    have 2: "?S j = NaN \<or> nGt (?S m) (?S j)" if "j < m" for j
      using m(5)[rule_format, OF that] sc[of j] Sm by (auto simp add: nGt_def nLt_def)
    show ?thesis using m(1,2) Sm 1 2 by auto
  qed
qed

lemma findBestAlignment_nat:
  assumes "length steps < 2 ^ 53" "w \<le> 2 ^ 53"
    and "targetLengthOf user ws = Fin (real w)"
    and "findBestAlignment_loop user (extractIntervals steps) (Fin (real w)) (Fin 0) (Fin (- 1))
           (Fin 0) = Some (bs, Fin (real m))"
    and "m = 0 \<or> m + w \<le> length steps"
  shows "findBestAlignment user steps ws =
         Some \<lparr>offset = Fin (real m), length_al = Fin (real w),
               alignedSteps = take (min (m + w) (length steps) - m) (drop m steps)\<rparr>"
proof -
  have "m + w \<le> 2 ^ 53" using assms(1,2,5) by auto
  from sliceJS_window[OF this, of steps] show ?thesis
    by (simp add: findBestAlignment_def Let_def assms(3,4))
qed

lemma targetLengthOf_whole:
  assumes "(windowSize = None \<or> windowSize = Some (Fin 0) \<or> windowSize = Some NegZero
              \<or> windowSize = Some NaN) \<and> w = length user
           \<or> windowSize = Some (Fin (real w)) \<and> 0 < w"
  shows "targetLengthOf user windowSize = Fin (real w)"
  using assms by (auto simp add: targetLengthOf_def isZero_def)

text \<open>
  C10, as amended. Let the window size be absent, zero or \<open>NaN\<close>, the window length \<open>w\<close>
  being then the number of the user's intervals, or a positive whole number \<open>w\<close>; let \<open>w\<close>
  and the number of candidate steps be below \<open>2^53\<close>. Then \<open>findBestAlignment\<close> returns an
  alignment, whose \<open>length\<close> is \<open>w\<close>. With at least \<open>w\<close> candidate steps, its offset \<open>m\<close>
  leaves room for a whole window (\<open>m + w\<close> is at most the number of candidates) and
  \<open>alignedSteps\<close> is the slice of exactly \<open>w\<close> steps at \<open>m\<close>. With fewer, the offset is 0 and
  \<open>alignedSteps\<close> is all the candidate steps: fewer than \<open>length\<close> says.
\<close>

theorem findBestAlignment_shape:
  assumes "length steps < 2 ^ 53" and "w < 2 ^ 53"
    and "(windowSize = None \<or> windowSize = Some (Fin 0) \<or> windowSize = Some NegZero
            \<or> windowSize = Some NaN) \<and> w = length user
         \<or> windowSize = Some (Fin (real w)) \<and> 0 < w"
  shows "\<exists>r m. findBestAlignment user steps windowSize = Some r
           \<and> offset r = Fin (real m) \<and> length_al r = Fin (real w)
           \<and> (w \<le> length steps \<longrightarrow>
                 m + w \<le> length steps \<and> alignedSteps r = take w (drop m steps)
                 \<and> length (alignedSteps r) = w)
           \<and> (length steps < w \<longrightarrow>
                 m = 0 \<and> alignedSteps r = steps \<and> length (alignedSteps r) < w)"
proof -
  let ?q = "extractIntervals steps"
  have lq: "length ?q = length steps" by (simp add: extractIntervals_def)
  have t: "targetLengthOf user windowSize = Fin (real w)"
    using assms(3) by (rule targetLengthOf_whole)
  have w: "w \<le> 2 ^ 53" using assms(2) by simp
  from findBestAlignment_loop_result[of ?q w user] assms(1) w lq
  obtain bs m where loop:
    "findBestAlignment_loop user ?q (Fin (real w)) (Fin 0) (Fin (- 1)) (Fin 0)
       = Some (bs, Fin (real m))"
    and m: "m = 0 \<or> m + w \<le> length steps"
    by auto
  define r where "r = \<lparr>offset = Fin (real m), length_al = Fin (real w),
      alignedSteps = take (min (m + w) (length steps) - m) (drop m steps)\<rparr>"
  have r: "findBestAlignment user steps windowSize = Some r"
    "offset r = Fin (real m)" "length_al r = Fin (real w)"
    "alignedSteps r = take (min (m + w) (length steps) - m) (drop m steps)"
    using findBestAlignment_nat[OF assms(1) w t loop m] by (simp_all add: r_def)
  have long: "m + w \<le> length steps \<and> alignedSteps r = take w (drop m steps)
      \<and> length (alignedSteps r) = w" if "w \<le> length steps"
    using that m r(4) by (auto simp add: min_def)
  have short: "m = 0 \<and> alignedSteps r = steps \<and> length (alignedSteps r) < w"
    if "length steps < w"
    using that m r(4) by (auto simp add: min_def)
  show ?thesis using r(1,2,3) long short by blast
qed

text \<open>
  C10, witness: a window size of 1 for two intervals against three steps gives length 1
  and one aligned step; no window size, one interval against two steps; and two intervals
  against one step.
\<close>

theorem findBestAlignment_shape_witness:
  "(\<exists>r m. findBestAlignment [Fin 5, Fin 7] [originStep, knownStep1, knownStep2] (Some (Fin 1))
             = Some r
          \<and> offset r = Fin (real m) \<and> m + 1 \<le> 3 \<and> length_al r = Fin 1
          \<and> length (alignedSteps r) = 1)
   \<and> (\<exists>r m. findBestAlignment [Fin 5, Fin 7] [originStep, knownStep1, knownStep2] None = Some r
          \<and> offset r = Fin (real m) \<and> m + 2 \<le> 3 \<and> length_al r = Fin 2
          \<and> alignedSteps r = take 2 (drop m [originStep, knownStep1, knownStep2]))
   \<and> (\<exists>r. findBestAlignment [Fin 1, Fin 2] [originStep] None = Some r
          \<and> offset r = Fin 0 \<and> length_al r = Fin 2 \<and> alignedSteps r = [originStep])"
proof -
  have a: "\<exists>r m. findBestAlignment [Fin 5, Fin 7] [originStep, knownStep1, knownStep2]
              (Some (Fin 1)) = Some r
          \<and> offset r = Fin (real m) \<and> m + 1 \<le> 3 \<and> length_al r = Fin 1
          \<and> length (alignedSteps r) = 1"
    using findBestAlignment_shape[of "[originStep, knownStep1, knownStep2]" 1 "Some (Fin 1)"
        "[Fin 5, Fin 7]"]
    by force
  have b: "\<exists>r m. findBestAlignment [Fin 5, Fin 7] [originStep, knownStep1, knownStep2] None
              = Some r
          \<and> offset r = Fin (real m) \<and> m + 2 \<le> 3 \<and> length_al r = Fin 2
          \<and> alignedSteps r = take 2 (drop m [originStep, knownStep1, knownStep2])"
    using findBestAlignment_shape[of "[originStep, knownStep1, knownStep2]" 2 None
        "[Fin 5, Fin 7]"]
    by force
  have c: "\<exists>r. findBestAlignment [Fin 1, Fin 2] [originStep] None = Some r
          \<and> offset r = Fin 0 \<and> length_al r = Fin 2 \<and> alignedSteps r = [originStep]"
    using findBestAlignment_shape[of "[originStep]" 2 None "[Fin 1, Fin 2]"]
    by auto
  show ?thesis using a b c by blast
qed

lemma extractIntervals_two:
  "extractIntervals [originStep, knownStep1] = [Fin 0, Fin 226623915]"
  "extractIntervals [originStep] = [Fin 0]"
  by (simp_all add: extractIntervals_def originStep_def knownStep1_def)

lemma findBestAlignment_fractional:
  "findBestAlignment [Fin 5] [originStep, knownStep1] (Some (Fin (3 / 2)))
   = Some \<lparr>offset = Fin 0, length_al = Fin (3 / 2), alignedSteps = [originStep]\<rparr>"
proof -
  let ?q = "[Fin 0, Fin 226623915]"
  have bound: "nSub (Fin 2) (Fin (3 / 2)) = Fin (1 / 2)"
    using round_half by (simp add: nSub_Fin)
  have l1: "findBestAlignment_loop [Fin 5] ?q (Fin (3 / 2)) (Fin 1) bs bo = Some (bs, bo)"
    for bs bo
    by (subst findBestAlignment_loop.simps) (simp add: bound nLe_Fin)
  have "\<exists>bs. findBestAlignment_loop [Fin 5] ?q (Fin (3 / 2)) (Fin 0) (Fin (- 1)) (Fin 0)
          = Some (bs, Fin 0)"
    by (subst findBestAlignment_loop.simps) (simp add: bound nLe_Fin nAdd_zero l1 Let_def)
  then obtain bs where
    "findBestAlignment_loop [Fin 5] ?q (Fin (3 / 2)) (Fin 0) (Fin (- 1)) (Fin 0)
       = Some (bs, Fin 0)" ..
  then show ?thesis
    by (simp add: findBestAlignment_def targetLengthOf_def isZero_def extractIntervals_two
        nAdd_zero sliceJS_def relativeIndex_def)
qed

lemma findBestAlignment_negative:
  "findBestAlignment [Fin 5] [originStep] (Some (Fin (- 1)))
   = Some \<lparr>offset = Fin 0, length_al = Fin (- 1), alignedSteps = []\<rparr>"
proof -
  let ?q = "[Fin 0 :: number]"
  let ?loop = "findBestAlignment_loop [Fin 5] ?q (Fin (- 1))"
  have bound: "nSub (Fin 1) (Fin (- 1)) = Fin 2"
    by (simp add: nSub_Fin roundDouble_numeral)
  have empty: "calculateSimilarity [Fin 5] [] defaultMaxInterval = Fin 0"
    by (simp add: calculateSimilarity_def)
  have c: "\<lceil>- 1 :: real\<rceil> = - 1" by (simp add: ceiling_eq_iff)
  have l3: "?loop (Fin 3) bs bo = Some (bs, bo)" for bs bo
    by (subst findBestAlignment_loop.simps) (simp add: bound nLe_Fin)
  have l2: "?loop (Fin 2) (Fin 0) bo = Some (Fin 0, bo)" for bo
    by (subst findBestAlignment_loop.simps)
      (simp add: bound nLe_Fin nGt_Fin nAdd_Fin roundDouble_numeral roundDouble_one l3
        sliceJS_def relativeIndex_def empty)
  have l1: "?loop (Fin 1) (Fin 0) bo = Some (Fin 0, bo)" for bo
    by (subst findBestAlignment_loop.simps)
      (simp add: bound nLe_Fin nGt_Fin nAdd_Fin roundDouble_numeral l2
        sliceJS_def relativeIndex_def empty)
  have l0: "?loop (Fin 0) (Fin (- 1)) (Fin 0) = Some (Fin 0, Fin 0)"
    by (subst findBestAlignment_loop.simps)
      (simp add: bound nLe_Fin nGt_Fin nAdd_zero l1 sliceJS_def relativeIndex_def empty c Let_def)
  then show ?thesis
    by (simp add: findBestAlignment_def targetLengthOf_def isZero_def extractIntervals_two
        nAdd_zero sliceJS_def relativeIndex_def c)
qed

text \<open>
  C10 as stated fails for a window size that is not a whole number of steps. With the
  window size \<open>1.5\<close> and two candidate steps, \<open>length\<close> is \<open>1.5\<close> and \<open>alignedSteps\<close> holds one
  step; with the window size \<open>-1\<close> and one candidate step, \<open>length\<close> is \<open>-1\<close> and
  \<open>alignedSteps\<close> is empty. In both the candidates are at least as many as the window length.
\<close>

theorem findBestAlignment_shape_counterexample:
  "findBestAlignment [Fin 5] [originStep, knownStep1] (Some (Fin (3 / 2)))
     = Some \<lparr>offset = Fin 0, length_al = Fin (3 / 2), alignedSteps = [originStep]\<rparr>
   \<and> findBestAlignment [Fin 5] [originStep] (Some (Fin (- 1)))
     = Some \<lparr>offset = Fin 0, length_al = Fin (- 1), alignedSteps = []\<rparr>"
  using findBestAlignment_fractional findBestAlignment_negative by simp

text \<open>
  C6. Let the window size be absent, zero or \<open>NaN\<close>, the window length \<open>w\<close> being then the
  number of the user's intervals, or a positive whole number \<open>w\<close>; let there be at least \<open>w\<close>
  candidate steps, and fewer than \<open>2^53\<close>. Then \<open>findBestAlignment\<close> returns the offset \<open>m\<close> of
  a window and, when some window has a score (one that is not \<open>NaN\<close>): the window \<open>m\<close> has
  a score, no window has a greater one, and every window at a smaller offset has a
  smaller score or none. So of the offsets with the greatest score it is the smallest.
\<close>

theorem findBestAlignment_first_maximum:
  assumes "length steps < 2 ^ 53" and "w \<le> length steps"
    and "(windowSize = None \<or> windowSize = Some (Fin 0) \<or> windowSize = Some NegZero
            \<or> windowSize = Some NaN) \<and> w = length user
         \<or> windowSize = Some (Fin (real w)) \<and> 0 < w"
  shows "\<exists>r m. findBestAlignment user steps windowSize = Some r
           \<and> offset r = Fin (real m) \<and> m + w \<le> length steps
           \<and> ((\<exists>j. j + w \<le> length steps
                    \<and> windowScore user (extractIntervals steps) (Fin (real w)) j \<noteq> NaN) \<longrightarrow>
                 windowScore user (extractIntervals steps) (Fin (real w)) m \<noteq> NaN
                 \<and> (\<forall>j. j + w \<le> length steps \<longrightarrow>
                       \<not> nGt (windowScore user (extractIntervals steps) (Fin (real w)) j)
                              (windowScore user (extractIntervals steps) (Fin (real w)) m))
                 \<and> (\<forall>j<m. windowScore user (extractIntervals steps) (Fin (real w)) j = NaN
                       \<or> nGt (windowScore user (extractIntervals steps) (Fin (real w)) m)
                              (windowScore user (extractIntervals steps) (Fin (real w)) j)))"
proof -
  let ?q = "extractIntervals steps"
  let ?S = "windowScore user ?q (Fin (real w))"
  have lq: "length ?q = length steps" by (simp add: extractIntervals_def)
  have t: "targetLengthOf user windowSize = Fin (real w)"
    using assms(3) by (rule targetLengthOf_whole)
  have w: "w \<le> 2 ^ 53" using assms(1,2) by simp
  from findBestAlignment_loop_result[of ?q w user] assms(1) w lq
  obtain bs m where loop:
    "findBestAlignment_loop user ?q (Fin (real w)) (Fin 0) (Fin (- 1)) (Fin 0)
       = Some (bs, Fin (real m))"
    and m: "m = 0 \<or> m + w \<le> length steps"
    and best: "(\<exists>j. j + w \<le> length steps \<and> ?S j \<noteq> NaN) \<longrightarrow>
                ?S m \<noteq> NaN
                \<and> (\<forall>j. j + w \<le> length steps \<longrightarrow> \<not> nGt (?S j) (?S m))
                \<and> (\<forall>j<m. ?S j = NaN \<or> nGt (?S m) (?S j))"
    by auto
  define r where "r = \<lparr>offset = Fin (real m), length_al = Fin (real w),
      alignedSteps = take (min (m + w) (length steps) - m) (drop m steps)\<rparr>"
  have r: "findBestAlignment user steps windowSize = Some r" "offset r = Fin (real m)"
    using findBestAlignment_nat[OF assms(1) w t loop m] by (simp_all add: r_def)
  have fits: "m + w \<le> length steps" using m assms(2) by auto
  show ?thesis using r fits best by blast
qed

lemma upt_3: "[0..<3] = [0, Suc 0, 2]"
  by (simp add: upt_rec numeral_3_eq_3 numeral_2_eq_2)

lemma rounding_1: "roundDouble (1 / 5) = Fin (3602879701896397 / 18014398509481984)"
  using roundDouble_dyadic[of "1 / 5" 55 7205759403792794] by simp

lemma rounding_2: "roundDouble (21617278211378381 / 18014398509481984) = Fin (5404319552844595 / 4503599627370496)"
  using roundDouble_dyadic[of "21617278211378381 / 18014398509481984" 52 5404319552844595] by simp

lemma rounding_3: "roundDouble (1 / 7) = Fin (2573485501354569 / 18014398509481984)"
  using roundDouble_dyadic[of "1 / 7" 55 5146971002709138] by simp

lemma rounding_4: "roundDouble (24190763712732949 / 18014398509481984) = Fin (6047690928183237 / 4503599627370496)"
  using roundDouble_dyadic[of "24190763712732949 / 18014398509481984" 52 6047690928183237] by simp

lemma rounding_5: "roundDouble (2015896976061079 / 4503599627370496) = Fin (2015896976061079 / 4503599627370496)"
  using roundDouble_dyadic[of "2015896976061079 / 4503599627370496" 54 8063587904244316] by simp

lemma rounding_6: "roundDouble (10 / 3) = Fin (7505999378950827 / 2251799813685248)"
  using roundDouble_dyadic[of "10 / 3" 51 7505999378950827] by simp

lemma rounding_7: "roundDouble (2501999792983609 / 453962842438945996800000) = Fin (416434434115489 / 75557863725914323419136)"
  using roundDouble_dyadic[of "2501999792983609 / 453962842438945996800000" 80 6662950945847824] by simp

lemma rounding_8: "roundDouble (75557863309479889303647 / 75557863725914323419136) = Fin (9007199205098139 / 9007199254740992)"
  using roundDouble_dyadic[of "75557863309479889303647 / 75557863725914323419136" 53 9007199205098139] by simp

lemma rounding_9: "roundDouble (13 / 3) = Fin (4878899596318037 / 1125899906842624)"
  using roundDouble_dyadic[of "13 / 3" 50 4878899596318037] by simp

lemma rounding_10: "roundDouble (- (3752999689475413 / 1125899906842624)) = Fin (- (3752999689475413 / 1125899906842624))"
  using roundDouble_dyadic_neg[of "3752999689475413 / 1125899906842624" 51 7505999378950826] by simp

lemma rounding_11: "roundDouble (14085006669202546403519131520569 / 1267650600228229401496703205376) = Fin (6254999482459021 / 562949953421312)"
  using roundDouble_dyadic[of "14085006669202546403519131520569 / 1267650600228229401496703205376" 49 6254999482459021] by simp

lemma rounding_12: "roundDouble (750599937895083 / 1125899906842624) = Fin (750599937895083 / 1125899906842624)"
  using roundDouble_dyadic[of "750599937895083 / 1125899906842624" 53 6004799503160664] by simp

lemma rounding_13: "roundDouble (563400266768102456620715576889 / 1267650600228229401496703205376) = Fin (2001599834386889 / 4503599627370496)"
  using roundDouble_dyadic[of "563400266768102456620715576889 / 1267650600228229401496703205376" 54 8006399337547556] by simp

lemma rounding_14: "roundDouble (52041595694059057 / 4503599627370496) = Fin (3252599730878691 / 281474976710656)"
  using roundDouble_dyadic[of "52041595694059057 / 4503599627370496" 49 6505199461757382] by simp

lemma rounding_15: "roundDouble (3002399751580331 / 1125899906842624) = Fin (3002399751580331 / 1125899906842624)"
  using roundDouble_dyadic[of "3002399751580331 / 1125899906842624" 51 6004799503160662] by simp

lemma rounding_16: "roundDouble (9014404268289633301131946069561 / 1267650600228229401496703205376) = Fin (4003199668773775 / 562949953421312)"
  using roundDouble_dyadic[of "9014404268289633301131946069561 / 1267650600228229401496703205376" 50 8006399337547550] by simp

lemma rounding_17: "roundDouble (10508399130531157 / 562949953421312) = Fin (2627099782632789 / 140737488355328)"
  using roundDouble_dyadic[of "10508399130531157 / 562949953421312" 48 5254199565265578] by simp

lemma rounding_18: "roundDouble (1 / 2) = Fin (1 / 2)"
  using roundDouble_dyadic[of "1 / 2" 53 4503599627370496] by simp

lemma rounding_19: "roundDouble (3 / 10) = Fin (5404319552844595 / 18014398509481984)"
  using roundDouble_dyadic[of "3 / 10" 54 5404319552844595] by simp

lemma rounding_20: "roundDouble (2015896976061079 / 9007199254740992) = Fin (2015896976061079 / 9007199254740992)"
  using roundDouble_dyadic[of "2015896976061079 / 9007199254740992" 55 8063587904244316] by simp

lemma rounding_21: "roundDouble (48677782780478166089143590708705 / 162259276829213363391578010288128) = Fin (5404319523058883 / 18014398509481984)"
  using roundDouble_dyadic[of "48677782780478166089143590708705 / 162259276829213363391578010288128" 54 5404319523058883] by simp

lemma rounding_22: "roundDouble (9436113475181041 / 18014398509481984) = Fin (589757092198815 / 1125899906842624)"
  using roundDouble_dyadic[of "9436113475181041 / 18014398509481984" 53 4718056737590520] by simp

lemma rounding_23: "roundDouble (3602879701896397 / 36028797018963968) = Fin (3602879701896397 / 36028797018963968)"
  using roundDouble_dyadic[of "3602879701896397 / 36028797018963968" 56 7205759403792794] by simp

lemma rounding_24: "roundDouble (22475106652258477 / 36028797018963968) = Fin (5618776663064619 / 9007199254740992)"
  using roundDouble_dyadic[of "22475106652258477 / 36028797018963968" 53 5618776663064619] by simp

lemma rounding_25: "roundDouble (3088182601625483 / 9007199254740992) = Fin (3088182601625483 / 9007199254740992)"
  using roundDouble_dyadic[of "3088182601625483 / 9007199254740992" 54 6176365203250966] by simp

lemma rounding_26: "roundDouble (12095381856366475 / 9007199254740992) = Fin (3023845464091619 / 2251799813685248)"
  using roundDouble_dyadic[of "12095381856366475 / 9007199254740992" 52 6047690928183238] by simp

lemma rounding_27: "roundDouble (3023845464091619 / 6755399441055744) = Fin (8063587904244317 / 18014398509481984)"
  using roundDouble_dyadic[of "3023845464091619 / 6755399441055744" 54 8063587904244317] by simp

lemma rounding_28: "roundDouble (34027197184577089 / 4503599627370496) = Fin (531674956009017 / 70368744177664)"
  using roundDouble_dyadic[of "34027197184577089 / 4503599627370496" 50 8506799296144272] by simp

lemma rounding_29: "roundDouble (8063587904244317 / 36028797018963968) = Fin (8063587904244317 / 36028797018963968)"
  using roundDouble_dyadic[of "8063587904244317 / 36028797018963968" 55 8063587904244317] by simp

lemma rounding_30: "roundDouble (18872226950362083 / 36028797018963968) = Fin (4718056737590521 / 9007199254740992)"
  using roundDouble_dyadic[of "18872226950362083 / 36028797018963968" 53 4718056737590521] by simp

lemma rounding_31: "roundDouble (22475106652258481 / 36028797018963968) = Fin (1404694165766155 / 2251799813685248)"
  using roundDouble_dyadic[of "22475106652258481 / 36028797018963968" 53 5618776663064620] by simp

lemma rounding_32: "roundDouble (20587884010836553 / 18014398509481984) = Fin (2573485501354569 / 2251799813685248)"
  using roundDouble_dyadic[of "20587884010836553 / 18014398509481984" 52 5146971002709138] by simp

lemma rounding_33: "roundDouble (2564549787808199 / 140737488355328) = Fin (2564549787808199 / 140737488355328)"
  using roundDouble_dyadic[of "2564549787808199 / 140737488355328" 48 5129099575616398] by simp

lemma rounding_34: "roundDouble (84067193044249257 / 4503599627370496) = Fin (5254199565265579 / 281474976710656)"
  using roundDouble_dyadic[of "84067193044249257 / 4503599627370496" 48 5254199565265579] by simp

lemma rounding_35: "roundDouble (3602879701896397 / 18014398509481984) = Fin (3602879701896397 / 18014398509481984)"
  using roundDouble_dyadic[of "3602879701896397 / 18014398509481984" 55 7205759403792794] by simp

lemma rounding_36: "roundDouble (1 / 151200000) = Fin (7995541135017389 / 1208925819614629174706176)"
  using roundDouble_dyadic[of "1 / 151200000" 80 7995541135017389] by simp

lemma rounding_37: "roundDouble (1208925811619088039688787 / 1208925819614629174706176) = Fin (281474974849049 / 281474976710656)"
  using roundDouble_dyadic[of "1208925811619088039688787 / 1208925819614629174706176" 53 9007199195169568] by simp

lemma rounding_38: "roundDouble (1521180710213156115688680540155 / 5070602400912917605986812821504) = Fin (5404319517101741 / 18014398509481984)"
  using roundDouble_dyadic[of "1521180710213156115688680540155 / 5070602400912917605986812821504" 54 5404319517101741] by simp

lemma rounding_39: "roundDouble (14411518736099879 / 36028797018963968) = Fin (1801439842012485 / 4503599627370496)"
  using roundDouble_dyadic[of "14411518736099879 / 36028797018963968" 54 7205759368049940] by simp

lemma rounding_40: "roundDouble (18014398437996277 / 36028797018963968) = Fin (4503599609499069 / 9007199254740992)"
  using roundDouble_dyadic[of "18014398437996277 / 36028797018963968" 54 9007199218998138] by simp

lemma rounding_41: "roundDouble (5404319552844595 / 18014398509481984) = Fin (5404319552844595 / 18014398509481984)"
  using roundDouble_dyadic[of "5404319552844595 / 18014398509481984" 54 5404319552844595] by simp

lemma rounding_42: "roundDouble (14411518807585587 / 18014398509481984) = Fin (3602879701896397 / 4503599627370496)"
  using roundDouble_dyadic[of "14411518807585587 / 18014398509481984" 53 7205759403792794] by simp

lemma rounding_43: "roundDouble (32425917317067573 / 36028797018963968) = Fin (8106479329266893 / 9007199254740992)"
  using roundDouble_dyadic[of "32425917317067573 / 36028797018963968" 53 8106479329266893] by simp

lemma rounding_44: "roundDouble (5 / 7) = Fin (6433713753386423 / 9007199254740992)"
  using roundDouble_dyadic[of "5 / 7" 53 6433713753386423] by simp

lemma rounding_45: "roundDouble (6433713753386423 / 9007199254740992) = Fin (6433713753386423 / 9007199254740992)"
  using roundDouble_dyadic[of "6433713753386423 / 9007199254740992" 53 6433713753386423] by simp

lemma rounding_46: "roundDouble (1 / 302400000) = Fin (7995541135017389 / 2417851639229258349412352)"
  using roundDouble_dyadic[of "1 / 302400000" 81 7995541135017389] by simp

lemma rounding_47: "roundDouble (2417851631233717214394963 / 2417851639229258349412352) = Fin (562949951559705 / 562949953421312)"
  using roundDouble_dyadic[of "2417851631233717214394963 / 2417851639229258349412352" 53 9007199224955280] by simp

lemma rounding_48: "roundDouble (6433713753386423 / 18014398509481984) = Fin (6433713753386423 / 18014398509481984)"
  using roundDouble_dyadic[of "6433713753386423 / 18014398509481984" 54 6433713753386423] by simp

lemma rounding_49: "roundDouble (3042361430487031341189729044475 / 10141204801825835211973625643008) = Fin (337769970935823 / 1125899906842624)"
  using roundDouble_dyadic[of "3042361430487031341189729044475 / 10141204801825835211973625643008" 54 5404319534973168] by simp

lemma rounding_50: "roundDouble (11838033288359591 / 18014398509481984) = Fin (1479754161044949 / 2251799813685248)"
  using roundDouble_dyadic[of "11838033288359591 / 18014398509481984" 53 5919016644179796] by simp

lemma rounding_51: "roundDouble (27278946278615581 / 36028797018963968) = Fin (6819736569653895 / 9007199254740992)"
  using roundDouble_dyadic[of "27278946278615581 / 36028797018963968" 53 6819736569653895] by simp

lemmas roundings = rounding_1 rounding_2 rounding_3 rounding_4 rounding_5 rounding_6 rounding_7 rounding_8 rounding_9 rounding_10 rounding_11 rounding_12 rounding_13 rounding_14 rounding_15 rounding_16 rounding_17 rounding_18 rounding_19 rounding_20 rounding_21 rounding_22 rounding_23 rounding_24 rounding_25 rounding_26 rounding_27 rounding_28 rounding_29 rounding_30 rounding_31 rounding_32 rounding_33 rounding_34 rounding_35 rounding_36 rounding_37 rounding_38 rounding_39 rounding_40 rounding_41 rounding_42 rounding_43 rounding_44 rounding_45 rounding_46 rounding_47 rounding_48 rounding_49 rounding_50 rounding_51

lemma score_111_157:
  "calculateSimilarity [Fin 1, Fin 1, Fin 1] [Fin 1, Fin 5, Fin 7] defaultMaxInterval = Fin (5618776663064619 / 9007199254740992)"
  by (simp add: calculateSimilarity_def pearsonCorrelation_def Let_def ratioTerm_def elemNumber_def
      defaultMaxInterval_def upt_3 number_simps roundings)

lemma score_111_571:
  "calculateSimilarity [Fin 1, Fin 1, Fin 1] [Fin 5, Fin 7, Fin 1] defaultMaxInterval = Fin (1404694165766155 / 2251799813685248)"
  by (simp add: calculateSimilarity_def pearsonCorrelation_def Let_def ratioTerm_def elemNumber_def
      defaultMaxInterval_def upt_3 number_simps roundings)

lemma score_111_715:
  "calculateSimilarity [Fin 1, Fin 1, Fin 1] [Fin 7, Fin 1, Fin 5] defaultMaxInterval = Fin (5618776663064619 / 9007199254740992)"
  by (simp add: calculateSimilarity_def pearsonCorrelation_def Let_def ratioTerm_def elemNumber_def
      defaultMaxInterval_def upt_3 number_simps roundings)

lemma score_5_1:
  "calculateSimilarity [Fin 5] [Fin 1] defaultMaxInterval = Fin (4503599609499069 / 9007199254740992)"
  by (simp add: calculateSimilarity_def pearsonCorrelation_def Let_def ratioTerm_def elemNumber_def
      defaultMaxInterval_def upt_3 number_simps roundings)

lemma score_5_5:
  "calculateSimilarity [Fin 5] [Fin 5] defaultMaxInterval = Fin (8106479329266893 / 9007199254740992)"
  by (simp add: calculateSimilarity_def pearsonCorrelation_def Let_def ratioTerm_def elemNumber_def
      defaultMaxInterval_def upt_3 number_simps roundings)

lemma score_5_7:
  "calculateSimilarity [Fin 5] [Fin 7] defaultMaxInterval = Fin (6819736569653895 / 9007199254740992)"
  by (simp add: calculateSimilarity_def pearsonCorrelation_def Let_def ratioTerm_def elemNumber_def
      defaultMaxInterval_def upt_3 number_simps roundings)


lemma tie_intervals:
  "extractIntervals tieCandidates = [Fin 1, Fin 5, Fin 7, Fin 1, Fin 5, Fin 7, Fin 1]"
  by (simp add: extractIntervals_def tieCandidates_def originStep_def)

lemma tie_scores_3:
  "windowScore [Fin 1, Fin 1, Fin 1] (extractIntervals tieCandidates) (Fin 3) 0
     = Fin (5618776663064619 / 9007199254740992)"
  "windowScore [Fin 1, Fin 1, Fin 1] (extractIntervals tieCandidates) (Fin 3) (Suc 0)
     = Fin (1404694165766155 / 2251799813685248)"
  "windowScore [Fin 1, Fin 1, Fin 1] (extractIntervals tieCandidates) (Fin 3) 2
     = Fin (5618776663064619 / 9007199254740992)"
  "windowScore [Fin 1, Fin 1, Fin 1] (extractIntervals tieCandidates) (Fin 3) 3
     = Fin (5618776663064619 / 9007199254740992)"
  "windowScore [Fin 1, Fin 1, Fin 1] (extractIntervals tieCandidates) (Fin 3) 4
     = Fin (1404694165766155 / 2251799813685248)"
  using windowScore_nat[of 0 3 "extractIntervals tieCandidates" "[Fin 1, Fin 1, Fin 1]"]
    windowScore_nat[of 1 3 "extractIntervals tieCandidates" "[Fin 1, Fin 1, Fin 1]"]
    windowScore_nat[of 2 3 "extractIntervals tieCandidates" "[Fin 1, Fin 1, Fin 1]"]
    windowScore_nat[of 3 3 "extractIntervals tieCandidates" "[Fin 1, Fin 1, Fin 1]"]
    windowScore_nat[of 4 3 "extractIntervals tieCandidates" "[Fin 1, Fin 1, Fin 1]"]
  by (simp_all add: tie_intervals score_111_157 score_111_571 score_111_715)

lemma tie_scores_1:
  "windowScore [Fin 5] (extractIntervals tieCandidates) (Fin 1) 0
     = Fin (4503599609499069 / 9007199254740992)"
  "windowScore [Fin 5] (extractIntervals tieCandidates) (Fin 1) (Suc 0)
     = Fin (8106479329266893 / 9007199254740992)"
  "windowScore [Fin 5] (extractIntervals tieCandidates) (Fin 1) 2
     = Fin (6819736569653895 / 9007199254740992)"
  "windowScore [Fin 5] (extractIntervals tieCandidates) (Fin 1) 3
     = Fin (4503599609499069 / 9007199254740992)"
  "windowScore [Fin 5] (extractIntervals tieCandidates) (Fin 1) 4
     = Fin (8106479329266893 / 9007199254740992)"
  "windowScore [Fin 5] (extractIntervals tieCandidates) (Fin 1) 5
     = Fin (6819736569653895 / 9007199254740992)"
  "windowScore [Fin 5] (extractIntervals tieCandidates) (Fin 1) 6
     = Fin (4503599609499069 / 9007199254740992)"
  using windowScore_nat[of 0 1 "extractIntervals tieCandidates" "[Fin 5]"]
    windowScore_nat[of 1 1 "extractIntervals tieCandidates" "[Fin 5]"]
    windowScore_nat[of 2 1 "extractIntervals tieCandidates" "[Fin 5]"]
    windowScore_nat[of 3 1 "extractIntervals tieCandidates" "[Fin 5]"]
    windowScore_nat[of 4 1 "extractIntervals tieCandidates" "[Fin 5]"]
    windowScore_nat[of 5 1 "extractIntervals tieCandidates" "[Fin 5]"]
    windowScore_nat[of 6 1 "extractIntervals tieCandidates" "[Fin 5]"]
  by (simp_all add: tie_intervals score_5_1 score_5_5 score_5_7)

text \<open>
  C6, witness. In double arithmetic the three intervals \<open>1, 1, 1\<close> score
  \<open>0.6238095221560847\<close> against \<open>5, 7, 1\<close> and \<open>0.6238095221560845\<close> against \<open>1, 5, 7\<close> and
  against \<open>7, 1, 5\<close>: of the five windows of \<open>tieCandidates\<close>, those at the offsets 1 and 4
  have the greatest score, and offset 1 is returned. With the window size 1 and the one
  interval 5, the windows at the offsets 1 and 4 score \<open>0.9\<close>, the greatest score, and
  offset 1 is returned.
\<close>

theorem findBestAlignment_first_maximum_witness:
  "windowScore [Fin 1, Fin 1, Fin 1] (extractIntervals tieCandidates) (Fin 3) 1
     = windowScore [Fin 1, Fin 1, Fin 1] (extractIntervals tieCandidates) (Fin 3) 4
   \<and> (\<exists>r. findBestAlignment [Fin 1, Fin 1, Fin 1] tieCandidates None = Some r
          \<and> offset r = Fin 1)
   \<and> windowScore [Fin 5] (extractIntervals tieCandidates) (Fin 1) 1
     = windowScore [Fin 5] (extractIntervals tieCandidates) (Fin 1) 4
   \<and> (\<exists>r. findBestAlignment [Fin 5] tieCandidates (Some (Fin 1)) = Some r
          \<and> offset r = Fin 1)"
proof -
  have len: "length tieCandidates = 7" by (simp add: tieCandidates_def)
  have a: "\<exists>r. findBestAlignment [Fin 1, Fin 1, Fin 1] tieCandidates None = Some r
          \<and> offset r = Fin 1"
  proof -
    let ?S = "windowScore [Fin 1, Fin 1, Fin 1] (extractIntervals tieCandidates) (Fin 3)"
    from findBestAlignment_first_maximum[of tieCandidates 3 None "[Fin 1, Fin 1, Fin 1]"]
    obtain r m where r: "findBestAlignment [Fin 1, Fin 1, Fin 1] tieCandidates None = Some r"
        "offset r = Fin (real m)" "m + 3 \<le> 7"
      and best: "(\<exists>j. j + 3 \<le> 7 \<and> ?S j \<noteq> NaN) \<longrightarrow>
          ?S m \<noteq> NaN \<and> (\<forall>j. j + 3 \<le> 7 \<longrightarrow> \<not> nGt (?S j) (?S m))
          \<and> (\<forall>j<m. ?S j = NaN \<or> nGt (?S m) (?S j))"
      by (auto simp add: len)
    have "0 + 3 \<le> (7::nat) \<and> ?S 0 \<noteq> NaN" by (simp add: tie_scores_3)
    then have "\<exists>j. j + 3 \<le> 7 \<and> ?S j \<noteq> NaN" by blast
    with best have B: "\<And>j. j + 3 \<le> 7 \<Longrightarrow> \<not> nGt (?S j) (?S m)"
      and C: "\<And>j. j < m \<Longrightarrow> ?S j = NaN \<or> nGt (?S m) (?S j)"
      by blast+
    from r(3) have "m = 0 \<or> m = 1 \<or> m = 2 \<or> m = 3 \<or> m = 4" by auto
    then have "m = 1"
    proof (elim disjE)
      assume m: "m = 0"
      from B[of 1] show ?thesis by (simp add: m tie_scores_3 nGt_Fin)
    next
      assume "m = 1"
      then show ?thesis .
    next
      assume m: "m = 2"
      from B[of 1] show ?thesis by (simp add: m tie_scores_3 nGt_Fin)
    next
      assume m: "m = 3"
      from B[of 1] show ?thesis by (simp add: m tie_scores_3 nGt_Fin)
    next
      assume m: "m = 4"
      from C[of 1] show ?thesis by (simp add: m tie_scores_3 nGt_Fin)
    qed
    then show ?thesis using r(1,2) by simp
  qed
  have b: "\<exists>r. findBestAlignment [Fin 5] tieCandidates (Some (Fin 1)) = Some r
          \<and> offset r = Fin 1"
  proof -
    let ?S = "windowScore [Fin 5] (extractIntervals tieCandidates) (Fin 1)"
    from findBestAlignment_first_maximum[of tieCandidates 1 "Some (Fin 1)" "[Fin 5]"]
    obtain r m where r: "findBestAlignment [Fin 5] tieCandidates (Some (Fin 1)) = Some r"
        "offset r = Fin (real m)" "m + 1 \<le> 7"
      and best: "(\<exists>j. j + 1 \<le> 7 \<and> ?S j \<noteq> NaN) \<longrightarrow>
          ?S m \<noteq> NaN \<and> (\<forall>j. j + 1 \<le> 7 \<longrightarrow> \<not> nGt (?S j) (?S m))
          \<and> (\<forall>j<m. ?S j = NaN \<or> nGt (?S m) (?S j))"
      by (auto simp add: len)
    have "0 + 1 \<le> (7::nat) \<and> ?S 0 \<noteq> NaN" by (simp add: tie_scores_1)
    then have "\<exists>j. j + 1 \<le> 7 \<and> ?S j \<noteq> NaN" by blast
    with best have B: "\<And>j. j + 1 \<le> 7 \<Longrightarrow> \<not> nGt (?S j) (?S m)"
      and C: "\<And>j. j < m \<Longrightarrow> ?S j = NaN \<or> nGt (?S m) (?S j)"
      by blast+
    from r(3) have "m = 0 \<or> m = 1 \<or> m = 2 \<or> m = 3 \<or> m = 4 \<or> m = 5 \<or> m = 6" by auto
    then have "m = 1"
    proof (elim disjE)
      assume m: "m = 0"
      from B[of 1] show ?thesis by (simp add: m tie_scores_1 nGt_Fin)
    next
      assume "m = 1"
      then show ?thesis .
    next
      assume m: "m = 2"
      from B[of 1] show ?thesis by (simp add: m tie_scores_1 nGt_Fin)
    next
      assume m: "m = 3"
      from B[of 1] show ?thesis by (simp add: m tie_scores_1 nGt_Fin)
    next
      assume m: "m = 4"
      from C[of 1] show ?thesis by (simp add: m tie_scores_1 nGt_Fin)
    next
      assume m: "m = 5"
      from B[of 1] show ?thesis by (simp add: m tie_scores_1 nGt_Fin)
    next
      assume m: "m = 6"
      from B[of 1] show ?thesis by (simp add: m tie_scores_1 nGt_Fin)
    qed
    then show ?thesis using r(1,2) by simp
  qed
  show ?thesis using a b by (simp add: tie_scores_3 tie_scores_1)
qed

subsection \<open>Errors of the generator\<close>

lemma hashToDuration_error: "hashToDuration d M = Inl e \<Longrightarrow> e = SyntaxError"
  by (auto simp: hashToDuration_def Let_def split: option.splits)

lemma toISOString_error: "toISOString t = Inl e \<Longrightarrow> e = RangeError"
  by (auto simp: toISOString_def Let_def split: if_splits prod.splits)

lemma toISOString_ok: "\<bar>t\<bar> \<le> 8640000000000000 \<Longrightarrow> \<exists>x. toISOString t = Inr x"
  by (auto simp: toISOString_def Let_def split: prod.splits)

lemma calculateNextStep_error:
  assumes "\<forall>t e. H t = Inl e \<longrightarrow> \<not> isValidationError e"
    and "calculateNextStep H s config = Inl e"
  shows "\<not> isValidationError e"
  using assms
  by (auto simp: calculateNextStep_def Let_def isValidationError_def split: sum.splits
      dest!: hashToDuration_error toISOString_error)

lemma getInitialStep_error:
  assumes "\<forall>t e. H t = Inl e \<longrightarrow> \<not> isValidationError e"
    and "getInitialStep H = Inl e"
  shows "\<not> isValidationError e"
  using assms
  by (auto simp: getInitialStep_def isValidationError_def split: sum.splits
      dest!: toISOString_error)

lemma calculateStepsForward_error:
  assumes "\<forall>t e. H t = Inl e \<longrightarrow> \<not> isValidationError e"
  shows "calculateStepsForward H s n config = Inl e \<Longrightarrow> \<not> isValidationError e"
proof (induction n arbitrary: s)
  case 0
  then show ?case by simp
next
  case (Suc n)
  then show ?case
    using calculateNextStep_error[OF assms] by (auto split: sum.splits)
qed

lemma findStepNearTimestamp_loop_error:
  assumes "\<forall>t e. H t = Inl e \<longrightarrow> \<not> isValidationError e"
    and "findStepNearTimestamp_loop H config target cur = Some (Inl e)"
  shows "\<not> isValidationError e"
proof -
  have "(\<forall>t e. H t = Inl e \<longrightarrow> \<not> isValidationError e)
        \<longrightarrow> (\<forall>e'. (Inl e :: error + QuantumStep) = Inl e' \<longrightarrow> \<not> isValidationError e')"
    by (rule findStepNearTimestamp_loop.raw_induct
        [where P = "\<lambda>H config target cur y. (\<forall>t e. H t = Inl e \<longrightarrow> \<not> isValidationError e)
                      \<longrightarrow> (\<forall>e'. y = Inl e' \<longrightarrow> \<not> isValidationError e')", OF _ assms(2)])
      (auto simp: Let_def split: if_splits sum.splits dest: calculateNextStep_error)
  with assms(1) show ?thesis by blast
qed

lemma calculateStepsInRange_loop_error:
  assumes "\<forall>t e. H t = Inl e \<longrightarrow> \<not> isValidationError e"
    and "calculateStepsInRange_loop H config endTs cur steps = Some (Inl e)"
  shows "\<not> isValidationError e"
proof -
  have "(\<forall>t e. H t = Inl e \<longrightarrow> \<not> isValidationError e)
        \<longrightarrow> (\<forall>e'. (Inl e :: error + QuantumStep list) = Inl e' \<longrightarrow> \<not> isValidationError e')"
    by (rule calculateStepsInRange_loop.raw_induct
        [where P = "\<lambda>H config endTs cur steps y. (\<forall>t e. H t = Inl e \<longrightarrow> \<not> isValidationError e)
                      \<longrightarrow> (\<forall>e'. y = Inl e' \<longrightarrow> \<not> isValidationError e')", OF _ assms(2)])
      (auto simp: Let_def split: if_splits sum.splits dest: calculateNextStep_error)
  with assms(1) show ?thesis by blast
qed

lemma quantumStepsToSearch_error:
  assumes "\<forall>t e. H t = Inl e \<longrightarrow> \<not> isValidationError e"
    and "quantumStepsToSearch H input = Some (Inl e)"
  shows "\<not> isValidationError e"
proof (cases "searchRange input")
  case None
  then show ?thesis
    using assms getInitialStep_error[OF assms(1)] calculateStepsForward_error[OF assms(1)]
    by (auto simp: quantumStepsToSearch_def split: sum.splits)
next
  case (Some range)
  obtain a b where range: "range = (a, b)" by (cases range)
  show ?thesis
    using assms Some range findStepNearTimestamp_loop_error[OF assms(1)]
      getInitialStep_error[OF assms(1)] calculateStepsInRange_loop_error[OF assms(1)]
    by (auto simp: quantumStepsToSearch_def calculateStepsInRange_def findStepNearTimestamp_def
        split: sum.splits option.splits)
qed

subsection \<open>The first 10000 steps\<close>

lemma hashingSucceeds_no_validation_error:
  "hashingSucceeds H \<Longrightarrow> \<forall>t e. H t = Inl e \<longrightarrow> \<not> isValidationError e"
  by (auto simp: hashingSucceeds_def) (metis Inl_Inr_False)

lemma calculateNextStep_succeeds:
  assumes "hashingSucceeds H" and "0 \<le> timestamp s"
    and "timestamp s + MAX_INTERVAL_MS \<le> 8640000000000000"
  shows "\<exists>s'. calculateNextStep H s DEFAULT_CONFIG = Inr s'
            \<and> timestamp s \<le> timestamp s' \<and> timestamp s' \<le> timestamp s + MAX_INTERVAL_MS"
proof -
  from assms(1) obtain d where d: "H (timestamp s) = Inr d" "16 \<le> length d"
      "\<forall>c\<in>set (take 16 d). hexDigit c \<noteq> None"
    unfolding hashingSucceeds_def by blast
  have M: "0 < MAX_INTERVAL_MS" "MAX_INTERVAL_MS < 2 ^ 53" by (simp_all add: MAX_INTERVAL_MS_def)
  from hashToDuration_hex[OF d(2) d(3) M]
  obtain iv where iv: "hashToDuration d MAX_INTERVAL_MS = Inr iv" "0 \<le> iv" "iv \<le> MAX_INTERVAL_MS"
    by blast
  have "\<bar>timestamp s + iv\<bar> \<le> 8640000000000000" using assms(2,3) iv by simp
  from toISOString_ok[OF this] obtain x where x: "toISOString (timestamp s + iv) = Inr x" ..
  show ?thesis
    using d(1) iv x by (simp add: calculateNextStep_def DEFAULT_CONFIG_def Let_def)
qed

lemma calculateStepsForward_succeeds:
  assumes "hashingSucceeds H"
  shows "0 \<le> timestamp s \<Longrightarrow> timestamp s + int n * MAX_INTERVAL_MS \<le> 8640000000000000
         \<Longrightarrow> \<exists>ss. calculateStepsForward H s n DEFAULT_CONFIG = Inr ss"
proof (induction n arbitrary: s)
  case 0
  then show ?case by simp
next
  case (Suc n)
  have M: "0 < MAX_INTERVAL_MS" by (simp add: MAX_INTERVAL_MS_def)
  have "0 \<le> int n * MAX_INTERVAL_MS" using M by simp
  then have b: "timestamp s + MAX_INTERVAL_MS \<le> 8640000000000000"
    using Suc.prems(2) by (simp add: algebra_simps)
  from calculateNextStep_succeeds[OF assms Suc.prems(1) b]
  obtain s' where s': "calculateNextStep H s DEFAULT_CONFIG = Inr s'"
      "timestamp s \<le> timestamp s'" "timestamp s' \<le> timestamp s + MAX_INTERVAL_MS" by blast
  have "0 \<le> timestamp s'" using Suc.prems(1) s'(2) by simp
  moreover have "timestamp s' + int n * MAX_INTERVAL_MS \<le> 8640000000000000"
    using Suc.prems(2) s'(3) by (simp add: algebra_simps)
  ultimately obtain ss where "calculateStepsForward H s' n DEFAULT_CONFIG = Inr ss"
    using Suc.IH by blast
  then show ?case using s'(1) by simp
qed

lemma quantumStepsToSearch_default:
  assumes "hashingSucceeds H" and "searchRange input = None"
  shows "\<exists>steps. quantumStepsToSearch H input = Some (Inr steps) \<and> length steps = 10000"
proof -
  from assms(1) obtain d where d: "H 0 = Inr d" unfolding hashingSucceeds_def by blast
  obtain x where x: "toISOString 0 = Inr x" using toISOString_ok[of 0] by auto
  let ?s0 = "\<lparr>index = 0, timestamp = 0, interval = 0, hash = d, isoString = x\<rparr>"
  have init: "getInitialStep H = Inr ?s0" using d x by (simp add: getInitialStep_def)
  have "timestamp ?s0 + int 10000 * MAX_INTERVAL_MS \<le> 8640000000000000"
    by (simp add: MAX_INTERVAL_MS_def)
  with calculateStepsForward_succeeds[OF assms(1), of ?s0 10000]
  obtain ss where ss: "calculateStepsForward H ?s0 10000 DEFAULT_CONFIG = Inr ss" by auto
  then show ?thesis
    using init assms(2) calculateStepsForward_length[OF ss]
    by (simp add: quantumStepsToSearch_def)
qed

lemma hashingSucceeds_digestOfZero: "hashingSucceeds (constHash digestOfZero)"
  by (simp add: hashingSucceeds_def constHash_def digestOfZero_def hexDigit_def)

lemma calculateStepsInRange_const:
  "calculateStepsInRange (constHash digestOfZero) 1 2 DEFAULT_CONFIG = Some (Inr [originStep])"
proof -
  have "findStepNearTimestamp_loop (constHash digestOfZero) DEFAULT_CONFIG 1 originStep
          = Some (Inr originStep)"
    by (subst findStepNearTimestamp_loop.simps)
      (simp add: calculateNextStep_const_origin known_timestamps)
  then have near: "findStepNearTimestamp (constHash digestOfZero) 1 DEFAULT_CONFIG
      = Some (Inr originStep)"
    by (simp add: findStepNearTimestamp_def getInitialStep_const)
  have "calculateStepsInRange_loop (constHash digestOfZero) DEFAULT_CONFIG 2 knownStep1 [originStep]
          = Some (Inr [originStep])"
    by (subst calculateStepsInRange_loop.simps) (simp add: known_timestamps)
  then have "calculateStepsInRange_loop (constHash digestOfZero) DEFAULT_CONFIG 2 originStep [originStep]
          = Some (Inr [originStep])"
    by (subst calculateStepsInRange_loop.simps)
      (simp add: calculateNextStep_const_origin known_timestamps)
  then show ?thesis
    by (simp add: calculateStepsInRange_def near)
qed

lemma findBestAlignment_default:
  assumes "length user \<le> length steps" "length steps < 2 ^ 53"
  shows "\<exists>a. findBestAlignment user steps None = Some a
           \<and> length (alignedSteps a) = length user"
proof -
  let ?q = "extractIntervals steps"
  let ?w = "length user"
  have lq: "length ?q = length steps" by (simp add: extractIntervals_def)
  have t: "targetLengthOf user None = Fin (real ?w)" by (simp add: targetLengthOf_def)
  have w: "?w \<le> 2 ^ 53" using assms by simp
  from findBestAlignment_loop_result[of ?q ?w user] assms(2) w lq
  obtain bs m where loop:
    "findBestAlignment_loop user ?q (Fin (real ?w)) (Fin 0) (Fin (- 1)) (Fin 0)
       = Some (bs, Fin (real m))"
    and m: "m = 0 \<or> m + ?w \<le> length steps"
    by auto
  have "m + ?w \<le> length steps" using m assms(1) by auto
  then show ?thesis
    using findBestAlignment_nat[OF assms(2) w t loop m] by (auto simp add: min_def)
qed

subsection \<open>Chains that do not give the window\<close>

lemma getInitialStep_stuck:
  "\<exists>s. getInitialStep (constHash zeroDigest) = Inr s \<and> timestamp s = 0"
  by (simp add: getInitialStep_def constHash_def toISOString_zero)

text \<open>Under a digest of zeros every interval is 0: the chain stays at 0 and the walk to a
  later timestamp does not end.\<close>

lemma findStepNearTimestamp_loop_stuck:
  assumes "timestamp s = 0" "0 < target"
  shows "findStepNearTimestamp_loop (constHash zeroDigest) config target s = None"
proof (rule ccontr)
  assume "findStepNearTimestamp_loop (constHash zeroDigest) config target s \<noteq> None"
  then obtain y where y: "findStepNearTimestamp_loop (constHash zeroDigest) config target s = Some y"
    by auto
  have "constHash zeroDigest = constHash zeroDigest \<and> timestamp s = 0 \<and> 0 < target \<longrightarrow> False"
  proof (rule findStepNearTimestamp_loop.raw_induct
      [where P = "\<lambda>H config target cur y.
          H = constHash zeroDigest \<and> timestamp cur = 0 \<and> 0 < target \<longrightarrow> False", OF _ y])
    fix f H config' target' cur y'
    assume IH: "\<And>H config target cur y. f H config target cur = Some y
        \<Longrightarrow> H = constHash zeroDigest \<and> timestamp cur = 0 \<and> 0 < target \<longrightarrow> False"
      and body: "(if timestamp cur < target' then
                    (case calculateNextStep H cur config' of
                       Inl e \<Rightarrow> Some (Inl e)
                     | Inr next \<Rightarrow>
                         if target' < timestamp next then
                           (let currentDiff = \<bar>target' - timestamp cur\<bar>;
                                nextDiff = \<bar>target' - timestamp next\<bar>
                            in Some (Inr (if currentDiff < nextDiff then cur else next)))
                         else f H config' target' next)
                  else Some (Inr cur)) = Some y'"
    show "H = constHash zeroDigest \<and> timestamp cur = 0 \<and> 0 < target' \<longrightarrow> False"
    proof
      assume h: "H = constHash zeroDigest \<and> timestamp cur = 0 \<and> 0 < target'"
      from calculateNextStep_stuck[of cur config'] h
      obtain s' where s': "calculateNextStep (constHash zeroDigest) cur config' = Inr s'"
          "timestamp s' = 0" by blast
      from body h s' have "f (constHash zeroDigest) config' target' s' = Some y'" by simp
      from IH[OF this] h s'(2) show False by simp
    qed
  qed
  with assms show False by simp
qed

lemma calculateStepsInRange_stuck:
  "0 < startTs \<Longrightarrow> calculateStepsInRange (constHash zeroDigest) startTs endTs config = None"
  using getInitialStep_stuck
  by (auto simp add: calculateStepsInRange_def findStepNearTimestamp_def
      findStepNearTimestamp_loop_stuck)

lemma hashingSucceeds_zeroDigest: "hashingSucceeds (constHash zeroDigest)"
  by (simp add: hashingSucceeds_def constHash_def zeroDigest_def hexDigit_def)

text \<open>Under the digest of \<open>0\<close> every interval is 226623915: the chain passes the last
  instant of the Date range, 8640000000000000, without meeting it.\<close>

lemma hashToDuration_digestOfZero: "hashToDuration digestOfZero MAX_INTERVAL_MS = Inr 226623915"
  by code_simp

lemma calculateNextStep_const:
  assumes "0 \<le> timestamp s"
  shows "timestamp s + 226623915 \<le> 8640000000000000 \<Longrightarrow>
           \<exists>s'. calculateNextStep (constHash digestOfZero) s DEFAULT_CONFIG = Inr s'
                \<and> timestamp s' = timestamp s + 226623915"
    and "8640000000000000 < timestamp s + 226623915 \<Longrightarrow>
           calculateNextStep (constHash digestOfZero) s DEFAULT_CONFIG = Inl RangeError"
proof -
  assume "timestamp s + 226623915 \<le> 8640000000000000"
  then have "\<bar>timestamp s + 226623915\<bar> \<le> 8640000000000000" using assms by simp
  from toISOString_ok[OF this] obtain x where "toISOString (timestamp s + 226623915) = Inr x" ..
  then show "\<exists>s'. calculateNextStep (constHash digestOfZero) s DEFAULT_CONFIG = Inr s'
                \<and> timestamp s' = timestamp s + 226623915"
    by (simp add: calculateNextStep_def constHash_def DEFAULT_CONFIG_def
        hashToDuration_digestOfZero)
next
  assume "8640000000000000 < timestamp s + 226623915"
  then have "toISOString (timestamp s + 226623915) = Inl RangeError"
    by (simp add: toISOString_def)
  then show "calculateNextStep (constHash digestOfZero) s DEFAULT_CONFIG = Inl RangeError"
    by (simp add: calculateNextStep_def constHash_def DEFAULT_CONFIG_def
        hashToDuration_digestOfZero)
qed

lemma findStepNearTimestamp_loop_past_range:
  assumes "0 \<le> timestamp s" "timestamp s \<le> 8640000000000000"
    and "(8640000000000000 - timestamp s) mod 226623915 \<noteq> 0"
  shows "findStepNearTimestamp_loop (constHash digestOfZero) DEFAULT_CONFIG 8640000000000000 s
         = Some (Inl RangeError)"
  using assms
proof (induction "nat (8640000000000000 - timestamp s)" arbitrary: s rule: less_induct)
  case less
  have lt: "timestamp s < 8640000000000000"
  proof (rule ccontr)
    assume "\<not> timestamp s < 8640000000000000"
    then have "timestamp s = 8640000000000000" using less.prems(2) by simp
    then show False using less.prems(3) by simp
  qed
  show ?case
  proof (cases "8640000000000000 < timestamp s + 226623915")
    case True
    from calculateNextStep_const(2)[OF less.prems(1) True] lt show ?thesis
      by (subst findStepNearTimestamp_loop.simps) simp
  next
    case False
    then have le: "timestamp s + 226623915 \<le> 8640000000000000" by simp
    from calculateNextStep_const(1)[OF less.prems(1) le]
    obtain s' where s': "calculateNextStep (constHash digestOfZero) s DEFAULT_CONFIG = Inr s'"
        "timestamp s' = timestamp s + 226623915" by blast
    have "(8640000000000000 - timestamp s') mod 226623915
          = (8640000000000000 - timestamp s - 226623915) mod 226623915"
      by (simp add: s'(2) algebra_simps)
    also have "\<dots> = (8640000000000000 - timestamp s) mod 226623915"
      using mod_diff_right_eq[of "8640000000000000 - timestamp s" 226623915 226623915]
      by simp
    finally have m: "(8640000000000000 - timestamp s') mod 226623915 \<noteq> 0"
      using less.prems(3) by simp
    have "findStepNearTimestamp_loop (constHash digestOfZero) DEFAULT_CONFIG 8640000000000000 s'
          = Some (Inl RangeError)"
      using less.prems(1) le m by (intro less.hyps) (simp_all add: s'(2))
    then show ?thesis
      using s' lt le by (subst findStepNearTimestamp_loop.simps) simp
  qed
qed

lemma calculateStepsInRange_past_range:
  "calculateStepsInRange (constHash digestOfZero) 8640000000000000 8640000000000000
     DEFAULT_CONFIG = Some (Inl RangeError)"
proof -
  have "findStepNearTimestamp_loop (constHash digestOfZero) DEFAULT_CONFIG 8640000000000000
          originStep = Some (Inl RangeError)"
    by (rule findStepNearTimestamp_loop_past_range) (simp_all add: known_timestamps)
  then show ?thesis
    by (simp add: calculateStepsInRange_def findStepNearTimestamp_def getInitialStep_const)
qed

subsection \<open>matchSequence\<close>

text \<open>
  C7, as amended. When hashing succeeds, \<open>matchSequence\<close> fails with one of its two
  validation errors exactly when the user's intervals are empty or the candidate steps
  were obtained and are fewer than the user's intervals; it then fails with the error of
  that case and returns no alignment. With a non-empty sequence and the candidate steps
  obtained, at least as many as the user's intervals (and fewer than \<open>2^53\<close>, as the
  elements of an array are), it returns a match result whose matched steps are as many
  as the user's intervals. Without a search range the candidate steps are always
  obtained, and are 10000: a non-empty sequence of at most 10000 intervals then gets a
  match result.
\<close>

theorem matchSequence_validation:
  assumes "hashingSucceeds H"
  shows "((\<exists>e. matchSequence H input = Some (Inl e) \<and> isValidationError e) \<longleftrightarrow>
            (parseUserInput input = []
             \<or> (\<exists>steps. quantumStepsToSearch H input = Some (Inr steps)
                   \<and> length steps < length (parseUserInput input))))
       \<and> (parseUserInput input = [] \<longrightarrow> matchSequence H input = Some (Inl NoIntervalsToMatch))
       \<and> (\<forall>steps. quantumStepsToSearch H input = Some (Inr steps)
             \<and> length steps < length (parseUserInput input)
             \<longrightarrow> matchSequence H input = Some (Inl SearchRangeTooSmall))
       \<and> (\<forall>steps. parseUserInput input \<noteq> [] \<and> quantumStepsToSearch H input = Some (Inr steps)
             \<and> length (parseUserInput input) \<le> length steps \<and> length steps < 2 ^ 53
             \<longrightarrow> (\<exists>r. matchSequence H input = Some (Inr r)
                    \<and> findBestAlignment (parseUserInput input) steps None = Some (alignment r)
                    \<and> length (matchedSteps r) = length (parseUserInput input)))
       \<and> (searchRange input = None \<longrightarrow>
            (\<exists>steps. quantumStepsToSearch H input = Some (Inr steps) \<and> length steps = 10000)
            \<and> (parseUserInput input \<noteq> [] \<and> length (parseUserInput input) \<le> 10000
                 \<longrightarrow> (\<exists>r. matchSequence H input = Some (Inr r))))"
proof -
  let ?u = "parseUserInput input"
  have nv: "\<forall>t e. H t = Inl e \<longrightarrow> \<not> isValidationError e"
    using assms by (rule hashingSucceeds_no_validation_error)
  have empty: "matchSequence H input = Some (Inl NoIntervalsToMatch)" if "?u = []"
    using that by (simp add: matchSequence_def)
  have short: "matchSequence H input = Some (Inl SearchRangeTooSmall)"
    if "quantumStepsToSearch H input = Some (Inr steps)" "length steps < length ?u" for steps
    using that by (auto simp: matchSequence_def Let_def)
  have ok: "\<exists>r. matchSequence H input = Some (Inr r)
        \<and> findBestAlignment ?u steps None = Some (alignment r)
        \<and> length (matchedSteps r) = length ?u"
    if "?u \<noteq> []" "quantumStepsToSearch H input = Some (Inr steps)" "length ?u \<le> length steps"
      "length steps < 2 ^ 53"
    for steps
  proof -
    from findBestAlignment_default[OF that(3,4)]
    obtain a where a: "findBestAlignment ?u steps None = Some a"
        "length (alignedSteps a) = length ?u" by blast
    then show ?thesis using that(1,2,3) by (simp add: matchSequence_def Let_def)
  qed
  have noerr: "\<not> (\<exists>e. matchSequence H input = Some (Inl e))"
    if "?u \<noteq> []" "quantumStepsToSearch H input = Some (Inr steps)" "length ?u \<le> length steps"
    for steps
    using that by (simp add: matchSequence_def Let_def split: option.splits)
  have iff: "(\<exists>e. matchSequence H input = Some (Inl e) \<and> isValidationError e) \<longleftrightarrow>
      (?u = [] \<or> (\<exists>steps. quantumStepsToSearch H input = Some (Inr steps) \<and> length steps < length ?u))"
  proof
    assume "\<exists>e. matchSequence H input = Some (Inl e) \<and> isValidationError e"
    then obtain e where e: "matchSequence H input = Some (Inl e)" "isValidationError e" by blast
    show "?u = [] \<or> (\<exists>steps. quantumStepsToSearch H input = Some (Inr steps) \<and> length steps < length ?u)"
    proof (rule ccontr)
      assume c: "\<not> ?thesis"
      then have ne: "?u \<noteq> []" by simp
      show False
      proof (cases "quantumStepsToSearch H input")
        case None
        then show ?thesis using e ne by (simp add: matchSequence_def)
      next
        case (Some res)
        show ?thesis
        proof (cases res)
          case (Inl e')
          then have "e' = e" using e ne Some by (simp add: matchSequence_def)
          then show ?thesis using quantumStepsToSearch_error[OF nv] Some Inl e(2) by blast
        next
          case (Inr steps)
          then have "length ?u \<le> length steps" using c Some by auto
          from noerr[OF ne _ this] Some Inr e show ?thesis by auto
        qed
      qed
    qed
  next
    assume "?u = [] \<or> (\<exists>steps. quantumStepsToSearch H input = Some (Inr steps) \<and> length steps < length ?u)"
    then show "\<exists>e. matchSequence H input = Some (Inl e) \<and> isValidationError e"
      using empty short by (auto simp: isValidationError_def)
  qed
  have default: "\<exists>r. matchSequence H input = Some (Inr r)"
    if "searchRange input = None" "?u \<noteq> []" "length ?u \<le> 10000"
  proof -
    from quantumStepsToSearch_default[OF assms that(1)]
    obtain steps where s: "quantumStepsToSearch H input = Some (Inr steps)"
        "length steps = 10000" by blast
    have "length steps < 2 ^ 53" using s(2) by simp
    with ok[OF that(2) s(1)] that(3) s(2) show ?thesis by auto
  qed
  show ?thesis
    using iff empty short ok default quantumStepsToSearch_default[OF assms] by blast
qed

text \<open>C7, witness: a single timestamp (no interval), a range that holds one step for two
  intervals, and two intervals against the first 10000 steps.\<close>

theorem matchSequence_validation_witness:
  "hashingSucceeds (constHash digestOfZero)
   \<and> matchSequence (constHash digestOfZero)
        \<lparr>inputType_of = Timestamps, inputValues = [Fin 1000], searchRange = None\<rparr>
       = Some (Inl NoIntervalsToMatch)
   \<and> quantumStepsToSearch (constHash digestOfZero)
        \<lparr>inputType_of = Intervals, inputValues = [Fin 5, Fin 6], searchRange = Some (1, 2)\<rparr>
       = Some (Inr [originStep])
   \<and> matchSequence (constHash digestOfZero)
        \<lparr>inputType_of = Intervals, inputValues = [Fin 5, Fin 6], searchRange = Some (1, 2)\<rparr>
       = Some (Inl SearchRangeTooSmall)
   \<and> (\<exists>r. matchSequence (constHash digestOfZero)
             \<lparr>inputType_of = Intervals, inputValues = [Fin 5, Fin 6], searchRange = None\<rparr>
            = Some (Inr r)
          \<and> length (matchedSteps r) = 2)"
proof -
  let ?H = "constHash digestOfZero"
  let ?i1 = "\<lparr>inputType_of = Timestamps, inputValues = [Fin 1000], searchRange = None\<rparr>"
  let ?i2 = "\<lparr>inputType_of = Intervals, inputValues = [Fin 5, Fin 6], searchRange = Some (1, 2)\<rparr>"
  let ?i3 = "\<lparr>inputType_of = Intervals, inputValues = [Fin 5, Fin 6], searchRange = None\<rparr>"
  note h = hashingSucceeds_digestOfZero
  have p1: "parseUserInput ?i1 = []" by (simp add: parseUserInput_def)
  have p2: "parseUserInput ?i2 = [Fin 5, Fin 6]" by (simp add: parseUserInput_def)
  have p3: "parseUserInput ?i3 = [Fin 5, Fin 6]" by (simp add: parseUserInput_def)
  have q2: "quantumStepsToSearch ?H ?i2 = Some (Inr [originStep])"
    by (simp add: quantumStepsToSearch_def calculateStepsInRange_const)
  have a: "matchSequence ?H ?i1 = Some (Inl NoIntervalsToMatch)"
    using matchSequence_validation[OF h, of ?i1] p1 by blast
  have b: "matchSequence ?H ?i2 = Some (Inl SearchRangeTooSmall)"
    using matchSequence_validation[OF h, of ?i2] p2 q2 by simp
  have c: "\<exists>r. matchSequence ?H ?i3 = Some (Inr r) \<and> length (matchedSteps r) = 2"
  proof -
    from matchSequence_validation[OF h, of ?i3]
    obtain steps where s: "quantumStepsToSearch ?H ?i3 = Some (Inr steps)" "length steps = 10000"
      by auto
    have "length steps < 2 ^ 53" using s(2) by simp
    with matchSequence_validation[OF h, of ?i3] p3 s show ?thesis by auto
  qed
  show ?thesis using h a b c q2 by blast
qed

text \<open>
  C7 as stated fails: hashing can succeed, the intervals be non-empty, and the result be
  neither a validation error nor a match result. Under the digest of \<open>0\<close> for every
  timestamp, a search range at the last instant of the Date range ends in the
  \<open>RangeError\<close> of \<open>toISOString\<close>, at the step that passes that instant. Under a digest
  of zeros the chain never reaches the start of a search range after the origin, and
  \<open>matchSequence\<close> does not return.
\<close>

theorem matchSequence_no_result_counterexample:
  "hashingSucceeds (constHash digestOfZero)
   \<and> parseUserInput
        \<lparr>inputType_of = Intervals, inputValues = [Fin 5],
         searchRange = Some (8640000000000000, 8640000000000000)\<rparr> = [Fin 5]
   \<and> matchSequence (constHash digestOfZero)
        \<lparr>inputType_of = Intervals, inputValues = [Fin 5],
         searchRange = Some (8640000000000000, 8640000000000000)\<rparr>
       = Some (Inl RangeError)
   \<and> \<not> isValidationError RangeError
   \<and> hashingSucceeds (constHash zeroDigest)
   \<and> matchSequence (constHash zeroDigest)
        \<lparr>inputType_of = Intervals, inputValues = [Fin 5], searchRange = Some (1, 2)\<rparr>
       = None"
  using hashingSucceeds_digestOfZero hashingSucceeds_zeroDigest
  by (simp add: matchSequence_def parseUserInput_def quantumStepsToSearch_def
      calculateStepsInRange_past_range calculateStepsInRange_stuck isValidationError_def)

end
